theory Spec2Isabelle
  imports Complex_Main "HOL-Library.AList" "HOL-Library.Multiset"
begin

section \<open>The JavaScript values the scanner core computes with\<close>

text \<open>
  Strings are lists of characters. Line numbers and array indices are JavaScript
  numbers holding integers and are modelled as \<open>int\<close>; confidences are numbers in
  \<open>[0, 1]\<close> and are modelled as \<open>real\<close> (the comparisons of the source against the
  literals \<open>0.9\<close>, \<open>0.75\<close> and \<open>0.5\<close> agree on doubles and on reals, since no double
  lies strictly between a decimal literal and the double nearest to it).
\<close>

subsection \<open>String and Array operations of the runtime\<close>

text \<open>\<open>s.startsWith(p)\<close> and \<open>s.includes(p)\<close>.\<close>

fun startsWith :: "string \<Rightarrow> string \<Rightarrow> bool" where
  "startsWith s [] = True"
| "startsWith [] (p # ps) = False"
| "startsWith (c # cs) (p # ps) = (c = p \<and> startsWith cs ps)"

fun str_includes :: "string \<Rightarrow> string \<Rightarrow> bool" where
  "str_includes [] p = (p = [])"
| "str_includes (c # cs) p = (startsWith (c # cs) p \<or> str_includes cs p)"

text \<open>
  \<open>s.split(sep)\<close> for a one-character separator: the result is never empty, and the
  empty string splits into one empty string.
\<close>

fun split :: "string \<Rightarrow> char \<Rightarrow> string list" where
  "split [] sep = [[]]"
| "split (c # cs) sep =
     (if c = sep then [] # split cs sep
      else (case split cs sep of
              [] \<Rightarrow> [[c]]
            | w # ws \<Rightarrow> (c # w) # ws))"

text \<open>\<open>xs.join(sep)\<close> for an array of strings.\<close>

fun join :: "string list \<Rightarrow> string \<Rightarrow> string" where
  "join [] sep = []"
| "join [w] sep = w"
| "join (w # v # ws) sep = w @ sep @ join (v # ws) sep"

text \<open>
  \<open>xs[i]\<close> for an integer \<open>i\<close>: \<open>undefined\<close> (here \<open>None\<close>) outside \<open>0 .. length - 1\<close>.
\<close>

definition at_index :: "'a list \<Rightarrow> int \<Rightarrow> 'a option" where
  "at_index xs i = (if 0 \<le> i \<and> i < int (length xs) then Some (xs ! nat i) else None)"

text \<open>
  \<open>xs.slice(start, end)\<close> for integers: a negative bound counts from the end of the
  array, and both bounds are clamped to \<open>0 .. length\<close>.
\<close>

definition slice :: "'a list \<Rightarrow> int \<Rightarrow> int \<Rightarrow> 'a list" where
  "slice xs start end' =
     (let len = int (length xs);
          k = (if start < 0 then max (len + start) 0 else min start len);
          final = (if end' < 0 then max (len + end') 0 else min end' len)
      in take (nat (final - k)) (drop (nat k) xs))"

text \<open>
  The decimal text of an integer in a template literal (\<open>`${n}`\<close>): the digits, with a
  leading minus sign for a negative number. (The runtime prints an integer this way
  as long as it is below \<open>10^21\<close> in absolute value, which line numbers are.)
\<close>

fun digits :: "nat \<Rightarrow> string" where
  "digits n =
     (if n < 10 then [''0123456789'' ! n]
      else digits (n div 10) @ [''0123456789'' ! (n mod 10)])"

declare digits.simps [simp del]

definition Number_toString :: "int \<Rightarrow> string" where
  "Number_toString n = (if n < 0 then CHR ''-'' # digits (nat (- n)) else digits (nat n))"

subsection \<open>The insertion-ordered \<open>Map\<close>\<close>

text \<open>
  A JavaScript \<open>Map\<close> iterates in insertion order, and \<open>set\<close> on a key that is
  already present replaces the value where it stands. It is an association list in
  insertion order.
\<close>

type_synonym ('k, 'v) js_map = "('k \<times> 'v) list"

definition Map_has :: "('k, 'v) js_map \<Rightarrow> 'k \<Rightarrow> bool" where
  "Map_has m k = (map_of m k \<noteq> None)"

definition Map_get :: "('k, 'v) js_map \<Rightarrow> 'k \<Rightarrow> 'v option" where
  "Map_get m k = map_of m k"

definition Map_set :: "('k, 'v) js_map \<Rightarrow> 'k \<Rightarrow> 'v \<Rightarrow> ('k, 'v) js_map" where
  "Map_set m k v = AList.update k v m"

definition Map_values :: "('k, 'v) js_map \<Rightarrow> 'v list" where
  "Map_values m = map snd m"

section \<open>The data model (types.ts)\<close>

datatype Severity = CRITICAL | HIGH | MEDIUM | LOW | INFO

datatype Category = secrets | injection | auth | crypto | dependency | other

text \<open>
  \<open>types.ts\<close> lists the first four sources; \<open>custom-secrets\<close> is the fifth bucket of
  \<open>calculateStats\<close> and the source that the hard-coded secrets analyzer and the SARIF
  processor give their findings.
\<close>

datatype ScanSource = truffleHog | semgrep | custom_npm | custom_react | custom_secrets

datatype Effort = effort_low | effort_medium | effort_high

record Remediation =
  summary :: string
  fix_code :: "string option"
  references :: "string list"
  effort :: Effort

record Finding =
  finding_id :: string
  ruleId :: string
  source :: ScanSource
  severity :: Severity
  category :: Category
  cwe :: "string option"
  owasp :: "string option"
  finding_file :: string
  line :: int
  column :: "int option"
  endLine :: "int option"
  endColumn :: "int option"
  title :: string
  description :: string
  snippet :: string
  remediation :: Remediation
  confidence :: real
  falsePositiveProbability :: "real option"
  suppressedBy :: "string option"
  detectedAt :: string
  firstSeenAt :: "string option"

text \<open>One entry of \<open>ScanResult.toolsRun\<close>: the record of one producer's run.\<close>

record ToolRun =
  tool_name :: string
  tool_version :: string
  tool_duration :: real
  exitCode :: int
  tool_error :: "string option"

record Stats =
  total :: nat
  bySeverity :: "(Severity \<times> nat) list"
  byCategory :: "(Category \<times> nat) list"
  bySource :: "(ScanSource \<times> nat) list"
  suppressedCount :: nat

record Performance =
  parallelWorkers :: nat
  cacheHitRate :: real
  incrementalScan :: bool

record ScanResult =
  scanId :: string
  version :: string
  startedAt :: string
  completedAt :: string
  duration :: real
  target :: string
  filesScanned :: nat
  linesOfCode :: nat
  toolsRun :: "ToolRun list"
  findings :: "Finding list"
  suppressed :: "Finding list"
  stats :: Stats
  performance :: Performance

text \<open>One custom suppression rule of \<open>config.falsePositives.patterns\<close>.\<close>

record SuppressionRule =
  rule_file :: string
  rule_pattern :: string
  rule_reason :: string

text \<open>The fields of \<open>ScanConfig\<close> that the orchestrator and the rule engine read.\<close>

record ScanConfig =
  scan_target :: string
  cfg_parallelWorkers :: nat
  cfg_incrementalScan :: bool
  excludeTestFiles :: bool
  patterns :: "SuppressionRule list"

section \<open>The deduplicator (ScanOrchestrator.deduplicateFindings)\<close>

text \<open>The key of a finding: \<open>`${finding.file}:${finding.line}:${finding.ruleId}`\<close>.\<close>

definition dedup_key :: "Finding \<Rightarrow> string" where
  "dedup_key finding =
     finding_file finding @ '':'' @ Number_toString (line finding) @ '':'' @ ruleId finding"

text \<open>
  The body of the loop, with the map \<open>seen\<close> as its state. The source asserts that
  \<open>seen.get(key)\<close> is defined after \<open>seen.has(key)\<close>; the \<open>None\<close> branch below is that
  impossible case.
\<close>

definition dedup_step :: "(string, Finding) js_map \<Rightarrow> Finding \<Rightarrow> (string, Finding) js_map" where
  "dedup_step seen finding =
     (let key = dedup_key finding in
      if \<not> Map_has seen key then Map_set seen key finding
      else (case Map_get seen key of
              None \<Rightarrow> seen
            | Some existing \<Rightarrow>
                if confidence finding > confidence existing
                then Map_set seen key finding
                else seen))"

fun dedup_loop :: "Finding list \<Rightarrow> (string, Finding) js_map \<Rightarrow> (string, Finding) js_map" where
  "dedup_loop [] seen = seen"
| "dedup_loop (finding # rest) seen = dedup_loop rest (dedup_step seen finding)"

definition deduplicateFindings :: "Finding list \<Rightarrow> Finding list" where
  "deduplicateFindings fs = Map_values (dedup_loop fs [])"

section \<open>The statistics aggregator (ScanOrchestrator.calculateStats)\<close>

text \<open>
  \<open>counts[key]++\<close> on a record of counters that holds every key of the enumeration.
\<close>

fun increment :: "'k \<Rightarrow> ('k \<times> nat) list \<Rightarrow> ('k \<times> nat) list" where
  "increment k [] = []"
| "increment k ((k', n) # rest) =
     (if k' = k then (k', n + 1) # rest else (k', n) # increment k rest)"

definition bySeverity_init :: "(Severity \<times> nat) list" where
  "bySeverity_init = [(CRITICAL, 0), (HIGH, 0), (MEDIUM, 0), (LOW, 0), (INFO, 0)]"

definition byCategory_init :: "(Category \<times> nat) list" where
  "byCategory_init =
     [(secrets, 0), (injection, 0), (auth, 0), (crypto, 0), (dependency, 0), (other, 0)]"

definition bySource_init :: "(ScanSource \<times> nat) list" where
  "bySource_init =
     [(truffleHog, 0), (semgrep, 0), (custom_npm, 0), (custom_react, 0), (custom_secrets, 0)]"

fun stats_loop :: "Finding list \<Rightarrow> Stats \<Rightarrow> Stats" where
  "stats_loop [] st = st"
| "stats_loop (finding # rest) st =
     stats_loop rest
       (st\<lparr>bySeverity := increment (severity finding) (bySeverity st),
           byCategory := increment (category finding) (byCategory st),
           bySource := increment (source finding) (bySource st)\<rparr>)"

definition calculateStats :: "Finding list \<Rightarrow> Stats" where
  "calculateStats fs =
     stats_loop fs
       \<lparr>total = length fs, bySeverity = bySeverity_init, byCategory = byCategory_init,
        bySource = bySource_init, suppressedCount = 0\<rparr>"

section \<open>The runtime and the libraries the core calls\<close>

text \<open>
  The regular-expression literals of \<open>rule-engine.ts\<close>, by the names or the uses the
  source gives them. Matching them is the work of the runtime's \<open>RegExp\<close>.
  \<^item> \<open>TEST_KEYWORDS\<close>:
    \<^verbatim>\<open>/describe|it\(|test\(|expect\(|jest\.|vitest\.|mocha\.|beforeEach|afterEach|beforeAll|afterAll/i\<close>
  \<^item> \<open>CLI_PATTERNS\<close>: \<^verbatim>\<open>/commands?|cli|bin|scan|orchestrator|adapters?|analyzers?/\<close>
  \<^item> \<open>DOC_MARKERS\<close>:
    \<^verbatim>\<open>/<[^>]+>|\[[^\]]+\]|\{\{[^}]+\}\}|example|sample|demo|placeholder|your_|replace_/i\<close>
  \<^item> \<open>re_path_operation\<close> (\<open>isPathOp\<close>): \<^verbatim>\<open>/path\.(join|resolve|normalize)/\<close>
  \<^item> \<open>re_validation\<close> (\<open>hasValidation\<close>): \<^verbatim>\<open>/validate|sanitize|normalize|resolve/\<close>
  \<^item> \<open>re_doc_file\<close> (\<open>isDocFile\<close>): \<^verbatim>\<open>/\.(md|rst|txt)$|docs?\//i\<close>
  \<^item> \<open>re_rules_directory\<close> and \<open>re_yaml_extension\<close> (\<open>isRuleFile\<close>):
    \<^verbatim>\<open>/rules?\//i\<close> and \<^verbatim>\<open>/\.(yml|yaml)$/\<close>
  \<^item> \<open>re_lock_file\<close> (\<open>isLockFile\<close>):
    \<^verbatim>\<open>/\/(yarn\.lock|package-lock\.json|pnpm-lock\.yaml|composer\.lock)$/\<close>
  \<^item> \<open>re_resolved_tgz\<close>, \<open>re_integrity_sha\<close>, \<open>re_quoted_hex\<close> (\<open>isIntegrityHash\<close>):
    \<^verbatim>\<open>/resolved.*\.tgz#[a-f0-9]{40}/\<close>, \<^verbatim>\<open>/integrity.*sha[0-9]+-[A-Za-z0-9+/=]+/\<close>,
    \<^verbatim>\<open>/"[a-f0-9]{40,64}"/\<close>
  \<^item> \<open>re_algolia_keys\<close>:
    \<^verbatim>\<open>/algolia.*appId.*['"]([A-Z0-9]{10})['"].*apiKey.*['"]([a-f0-9]{32})['"]/\<close>
  \<^item> \<open>re_algolia_env\<close>: \<^verbatim>\<open>/ALGOLIA.*APP_ID.*API_KEY/\<close>
  \<^item> \<open>re_google_maps\<close>: \<^verbatim>\<open>/google.*maps.*api.*key/i\<close>
  \<^item> \<open>re_stripe_publishable\<close>: \<^verbatim>\<open>/pk_[a-zA-Z0-9]{24,}/\<close>
  \<^item> \<open>re_firebase_config\<close>: \<^verbatim>\<open>/firebase.*config.*apiKey/i\<close>
  \<^item> \<open>re_public_markers\<close> (\<open>hasPublicMarkers\<close>):
    \<^verbatim>\<open>/public|client|frontend|browser|read.?only/i\<close>
  \<^item> \<open>re_config_structure\<close> (\<open>hasConfigStructure\<close>):
    \<^verbatim>\<open>/const.*config|export.*config|\{[^}]*appId[^}]*apiKey[^}]*\}/i\<close>
  \<^item> \<open>re_public_file\<close> (\<open>isInPublicFile\<close>): \<^verbatim>\<open>/config|constants|settings/i\<close>
  \<^item> \<open>re_search_usage\<close> and \<open>re_admin_usage\<close> (\<open>hasSearchOnlyUsage\<close>):
    \<^verbatim>\<open>/search|query|index/i\<close> and \<^verbatim>\<open>/admin|write|delete|update/i\<close>
  \<^item> \<open>re_client_config\<close> (\<open>isClientConfig\<close>): \<^verbatim>\<open>/client|frontend|public/i\<close>
  \<^item> \<open>re_appId\<close> (\<open>hasAppIdPattern\<close>): \<^verbatim>\<open>/appId.*['"]([A-Z0-9]{10})['"]/\<close>
\<close>

datatype RegexLiteral =
    TEST_KEYWORDS | CLI_PATTERNS | DOC_MARKERS
  | re_path_operation | re_validation
  | re_doc_file
  | re_rules_directory | re_yaml_extension
  | re_lock_file | re_resolved_tgz | re_integrity_sha | re_quoted_hex
  | re_algolia_keys | re_algolia_env | re_google_maps | re_stripe_publishable | re_firebase_config
  | re_public_markers | re_config_structure | re_public_file
  | re_search_usage | re_admin_usage | re_client_config | re_appId

text \<open>
  The errors that a call into the runtime or into a library throws, with their
  messages.
\<close>

datatype error = SyntaxError string | TypeError string

text \<open>
  What the core takes from outside its own code:
  \<^item> \<open>isMatch file globs\<close> is \<open>micromatch.isMatch(file, globs)\<close>, given the patterns as a
    list (one pattern is the list of that pattern), and \<open>Inl e\<close> when the call throws
    \<open>e\<close>: the library compiles every pattern before it looks at the file, and it refuses
    a pattern that it cannot compile;
  \<^item> \<open>literal_test r s\<close> is \<open>r.test(s)\<close> for a regular-expression literal \<open>r\<close>;
  \<^item> \<open>RegExp_test p s\<close> is \<open>new RegExp(p).test(s)\<close>, and \<open>None\<close> when the constructor
    throws a \<open>SyntaxError\<close> because \<open>p\<close> is not a regular expression;
  \<^item> \<open>readFile path\<close> is the text of the file, and \<open>None\<close> when reading it throws;
  \<^item> \<open>toUpperCase s\<close> is \<open>s.toUpperCase()\<close>.
\<close>

record Library =
  isMatch :: "string \<Rightarrow> string list \<Rightarrow> error + bool"
  literal_test :: "RegexLiteral \<Rightarrow> string \<Rightarrow> bool"
  RegExp_test :: "string \<Rightarrow> string \<Rightarrow> bool option"
  readFile :: "string \<Rightarrow> string option"
  toUpperCase :: "string \<Rightarrow> string"

text \<open>
  A call of \<open>micromatch.isMatch\<close>. Whatever the file is, the library throws a
  \<open>TypeError\<close> when one of the patterns is the empty string; what it does with other
  patterns is the library's answer.
\<close>

definition micromatch_isMatch :: "Library \<Rightarrow> string \<Rightarrow> string list \<Rightarrow> error + bool" where
  "micromatch_isMatch L path globs =
     (if [] \<in> set globs then Inl (TypeError ''Expected pattern to be a non-empty string'')
      else isMatch L path globs)"

section \<open>The suppression engine (FalsePositiveRuleEngine)\<close>

definition DEFAULT_EXCLUSIONS :: "string list" where
  "DEFAULT_EXCLUSIONS =
    [''**/*.test.{ts,tsx,js,jsx}'', ''**/*.spec.{ts,tsx,js,jsx}'', ''**/__tests__/**'',
     ''**/__mocks__/**'', ''**/fixtures/**'', ''**/examples/**'', ''**/demo/**'',
     ''**/*.stories.{ts,tsx,js,jsx}'',
     ''**/*.md'', ''**/*.mdx'', ''**/docs/**'', ''**/.storybook/**'', ''**/README*'',
     ''**/CHANGELOG*'', ''**/CONTRIBUTING*'', ''**/SECURITY*'', ''**/LICENSE*'',
     ''**/node_modules/**'', ''**/vendor/**'', ''**/dist/**'', ''**/build/**'',
     ''**/coverage/**'', ''**/reports/**'',
     ''**/yarn.lock'', ''**/package-lock.json'', ''**/pnpm-lock.yaml'', ''**/composer.lock'',
     ''**/*.example.{json,yml,yaml}'', ''**/*.sample.{json,yml,yaml}'',
     ''**/example.config.*'', ''**/.env.example'', ''**/.env.template'',
     ''**/rules/**/*.{yml,yaml}'', ''**/patterns/**/*.{yml,yaml}'']"

definition TEST_PREFIXES :: "string list" where
  "TEST_PREFIXES =
    [''MOCK_'', ''TEST_'', ''EXAMPLE_'', ''SAMPLE_'', ''FIXTURE_'', ''DEMO_'',
     ''PLACEHOLDER_'', ''YOUR_'', ''REPLACE_'']"

text \<open>The state of an engine, as its constructor sets it from the configuration.\<close>

record Engine =
  exclusionPatterns :: "string list"
  customPatterns :: "SuppressionRule list"

definition FalsePositiveRuleEngine :: "ScanConfig \<Rightarrow> Engine" where
  "FalsePositiveRuleEngine config =
     \<lparr>exclusionPatterns = (if excludeTestFiles config then DEFAULT_EXCLUSIONS else []),
      customPatterns = patterns config\<rparr>"

text \<open>The answer of \<open>shouldSuppress\<close>: \<open>{ suppress, reason? }\<close>.\<close>

record Verdict =
  suppress :: bool
  reason :: "string option"

definition suppress_because :: "string \<Rightarrow> Verdict" where
  "suppress_because r = \<lparr>suppress = True, reason = Some r\<rparr>"

definition keep :: Verdict where
  "keep = \<lparr>suppress = False, reason = None\<rparr>"

definition matchesExclusionPattern :: "Library \<Rightarrow> Engine \<Rightarrow> string \<Rightarrow> error + bool" where
  "matchesExclusionPattern L eng path = micromatch_isMatch L path (exclusionPatterns eng)"

text \<open>
  The loop over the custom rules: the reason of the first rule whose glob matches the
  file and whose pattern matches the snippet. The loop ends with the error when the
  glob of a rule makes \<open>micromatch.isMatch\<close> throw, or when the pattern of a rule whose
  glob matches makes \<open>new RegExp\<close> throw; the pattern of a rule is compiled only when
  its glob matches.
\<close>

fun custom_rules :: "Library \<Rightarrow> SuppressionRule list \<Rightarrow> Finding \<Rightarrow> error + string option" where
  "custom_rules L [] finding = Inr None"
| "custom_rules L (pattern # rest) finding =
     (case micromatch_isMatch L (finding_file finding) [rule_file pattern] of
        Inl e \<Rightarrow> Inl e
      | Inr matches \<Rightarrow>
          if matches
          then (case RegExp_test L (rule_pattern pattern) (snippet finding) of
                  None \<Rightarrow> Inl (SyntaxError (rule_pattern pattern))
                | Some True \<Rightarrow> Inr (Some (rule_reason pattern))
                | Some False \<Rightarrow> custom_rules L rest finding)
          else custom_rules L rest finding)"

definition hasTestPrefix :: "string \<Rightarrow> bool" where
  "hasTestPrefix snip = list_ex (\<lambda>prefix. str_includes snip prefix) TEST_PREFIXES"

definition isTestContext :: "Library \<Rightarrow> string \<Rightarrow> bool" where
  "isTestContext L context = literal_test L TEST_KEYWORDS context"

definition newline :: char where
  "newline = CHR 0x0A"

text \<open>
  \<open>getContext\<close>: the lines of the file from index \<open>max(0, line - 6)\<close> up to, not
  including, index \<open>min(lines.length, line + 5)\<close>, joined again; \<open>null\<close> (here \<open>None\<close>)
  when the file cannot be read.
\<close>

definition getContext :: "Library \<Rightarrow> Finding \<Rightarrow> string option" where
  "getContext L finding =
     (case readFile L (finding_file finding) of
        None \<Rightarrow> None
      | Some content \<Rightarrow>
          (let lines = split content newline;
               startLine = max 0 (line finding - 6);
               endLine = min (int (length lines)) (line finding + 5)
           in Some (join (slice lines startLine endLine) [newline])))"

text \<open>\<open>l?.includes(p)\<close> read as a condition: false when \<open>l\<close> is \<open>undefined\<close>.\<close>

definition line_includes :: "string option \<Rightarrow> string \<Rightarrow> bool" where
  "line_includes l p = (case l of None \<Rightarrow> False | Some s \<Rightarrow> str_includes s p)"

definition hasNoSecComment :: "string \<Rightarrow> int \<Rightarrow> bool" where
  "hasNoSecComment context lineNumber =
     (let lines = split context newline;
          relevantLine = at_index lines (min (lineNumber - 1) (int (length lines) - 1));
          prevLine = at_index lines (max 0 (lineNumber - 2))
      in line_includes relevantLine ''nosec'' \<or> line_includes relevantLine ''noqa''
         \<or> line_includes prevLine ''nosec'' \<or> line_includes prevLine ''noqa'')"

definition isCliPathTraversal :: "Library \<Rightarrow> Finding \<Rightarrow> bool" where
  "isCliPathTraversal L finding =
     (let isCliFile = literal_test L CLI_PATTERNS (finding_file finding);
          isPathOp = literal_test L re_path_operation (snippet finding);
          hasValidation = literal_test L re_validation (snippet finding)
      in isCliFile \<and> isPathOp
         \<and> (hasValidation \<or> str_includes (ruleId finding) ''path-traversal''))"

definition isDocumentationFalsePositive :: "Library \<Rightarrow> Finding \<Rightarrow> bool" where
  "isDocumentationFalsePositive L finding =
     (let isDocFile = literal_test L re_doc_file (finding_file finding);
          hasDocMarkers = literal_test L DOC_MARKERS (snippet finding)
      in isDocFile \<and> (hasDocMarkers \<or> category finding = secrets))"

definition isScannerRuleFalsePositive :: "Library \<Rightarrow> Finding \<Rightarrow> bool" where
  "isScannerRuleFalsePositive L finding =
     (let isRuleFile = (literal_test L re_rules_directory (finding_file finding)
                        \<and> literal_test L re_yaml_extension (finding_file finding));
          isSecretRule = (category finding = secrets
                          \<or> str_includes (ruleId finding) ''hardcoded'')
      in isRuleFile \<and> isSecretRule)"

definition isPackageManagerHash :: "Library \<Rightarrow> Finding \<Rightarrow> bool" where
  "isPackageManagerHash L finding =
     (let isLockFile = literal_test L re_lock_file (finding_file finding);
          isIntegrityHash = (literal_test L re_resolved_tgz (snippet finding)
                             \<or> literal_test L re_integrity_sha (snippet finding)
                             \<or> literal_test L re_quoted_hex (snippet finding))
      in isLockFile \<and> isIntegrityHash \<and> category finding = secrets)"

definition isAlgoliaSearchOnlyKey :: "Library \<Rightarrow> string \<Rightarrow> bool" where
  "isAlgoliaSearchOnlyKey L context =
     (let hasSearchOnlyUsage = (literal_test L re_search_usage context
                                \<and> \<not> literal_test L re_admin_usage context);
          isClientConfig = literal_test L re_client_config context;
          hasAppIdPattern = literal_test L re_appId context
      in hasSearchOnlyUsage \<and> (isClientConfig \<or> hasAppIdPattern))"

text \<open>The known public key patterns, each with its \<open>readOnly\<close> flag.\<close>

definition publicKeyPatterns :: "(RegexLiteral \<times> bool) list" where
  "publicKeyPatterns =
     [(re_algolia_keys, True), (re_algolia_env, True), (re_google_maps, False),
      (re_stripe_publishable, True), (re_firebase_config, True)]"

fun public_key_loop :: "Library \<Rightarrow> Finding \<Rightarrow> string \<Rightarrow> (RegexLiteral \<times> bool) list \<Rightarrow> bool" where
  "public_key_loop L finding context [] = False"
| "public_key_loop L finding context ((pat, readOnly) # rest) =
     (if literal_test L pat context \<or> literal_test L pat (snippet finding)
      then (let hasPublicMarkers = literal_test L re_public_markers context;
                hasConfigStructure = literal_test L re_config_structure context;
                isInPublicFile = literal_test L re_public_file (finding_file finding)
            in if readOnly \<and> (hasPublicMarkers \<or> hasConfigStructure \<or> isInPublicFile
                               \<or> isAlgoliaSearchOnlyKey L context)
               then True
               else public_key_loop L finding context rest)
      else public_key_loop L finding context rest)"

text \<open>A context is used only when it is truthy: read, and not the empty string.\<close>

definition isLegitimatePublicApiKey :: "Library \<Rightarrow> Finding \<Rightarrow> string option \<Rightarrow> bool" where
  "isLegitimatePublicApiKey L finding context =
     (case context of
        None \<Rightarrow> False
      | Some c \<Rightarrow>
          if c = [] \<or> category finding \<noteq> secrets then False
          else public_key_loop L finding c publicKeyPatterns)"

text \<open>
  The stages that follow the custom rules and the naming heuristic: the context
  window, the inline directive, and the domain heuristics.
\<close>

definition context_stages :: "Library \<Rightarrow> Finding \<Rightarrow> Verdict" where
  "context_stages L finding =
     (let context = getContext L finding in
      if (case context of None \<Rightarrow> False | Some c \<Rightarrow> c \<noteq> [] \<and> isTestContext L c)
      then suppress_because ''Found in test context (describe/it/test/expect)''
      else if (case context of None \<Rightarrow> False
               | Some c \<Rightarrow> c \<noteq> [] \<and> hasNoSecComment c (line finding))
      then suppress_because ''Suppressed by nosec comment''
      else if isCliPathTraversal L finding
      then suppress_because ''CLI tool legitimate path operations''
      else if isDocumentationFalsePositive L finding
      then suppress_because ''Documentation with example credentials''
      else if isScannerRuleFalsePositive L finding
      then suppress_because ''Security scanner rule definitions''
      else if isPackageManagerHash L finding
      then suppress_because ''Package manager integrity hash''
      else if isLegitimatePublicApiKey L finding context
      then suppress_because ''Legitimate public/read-only API key''
      else keep)"

text \<open>
  \<open>shouldSuppress\<close>: the stages in their order. An error of the exclusion globs or of
  the custom rules is the error of the call (the promise rejects).
\<close>

definition shouldSuppress :: "Library \<Rightarrow> Engine \<Rightarrow> Finding \<Rightarrow> error + Verdict" where
  "shouldSuppress L eng finding =
     (case matchesExclusionPattern L eng (finding_file finding) of
        Inl e \<Rightarrow> Inl e
      | Inr excluded \<Rightarrow>
          if excluded
          then Inr (suppress_because
                      ''File matches exclusion pattern (test/docs/dependencies)'')
          else (case custom_rules L (customPatterns eng) finding of
                  Inl e \<Rightarrow> Inl e
                | Inr (Some r) \<Rightarrow> Inr (suppress_because r)
                | Inr None \<Rightarrow>
                    if hasTestPrefix (snippet finding)
                    then Inr (suppress_because
                                ''Variable has test/mock prefix (MOCK_, TEST_, etc.)'')
                    else Inr (context_stages L finding)))"

text \<open>The reasons that the built-in stages of \<open>shouldSuppress\<close> give.\<close>

definition built_in_reasons :: "string set" where
  "built_in_reasons =
     {''File matches exclusion pattern (test/docs/dependencies)'',
      ''Variable has test/mock prefix (MOCK_, TEST_, etc.)'',
      ''Found in test context (describe/it/test/expect)'',
      ''Suppressed by nosec comment'',
      ''CLI tool legitimate path operations'',
      ''Documentation with example credentials'',
      ''Security scanner rule definitions'',
      ''Package manager integrity hash'',
      ''Legitimate public/read-only API key''}"

text \<open>
  \<open>filterFindings\<close>: the loop over the findings with the two arrays as its state. A
  suppressed finding is pushed as a copy with \<open>suppressedBy\<close> set to the reason; a kept
  finding is pushed as it is. An error of \<open>shouldSuppress\<close> ends the loop.
\<close>

fun filter_loop ::
  "Library \<Rightarrow> Engine \<Rightarrow> Finding list \<Rightarrow> Finding list \<times> Finding list
     \<Rightarrow> error + Finding list \<times> Finding list" where
  "filter_loop L eng [] (filtered, suppressed_list) = Inr (filtered, suppressed_list)"
| "filter_loop L eng (finding # rest) (filtered, suppressed_list) =
     (case shouldSuppress L eng finding of
        Inl e \<Rightarrow> Inl e
      | Inr result \<Rightarrow>
          if suppress result
          then filter_loop L eng rest
                 (filtered, suppressed_list @ [finding\<lparr>suppressedBy := reason result\<rparr>])
          else filter_loop L eng rest (filtered @ [finding], suppressed_list))"

definition filterFindings ::
  "Library \<Rightarrow> Engine \<Rightarrow> Finding list \<Rightarrow> error + Finding list \<times> Finding list" where
  "filterFindings L eng fs = filter_loop L eng fs ([], [])"

section \<open>The coordinator (ScanOrchestrator.scan)\<close>

text \<open>
  What a call of a producer does: it returns a value, or it throws (its promise
  rejects) with an error whose text, \<open>error.message\<close> or \<open>String(error)\<close>, is given.
\<close>

datatype 'a outcome = Returns 'a | Throws string

text \<open>
  A producer: its name, what its availability probe does, and what its scan does on a
  configuration. \<open>elapsed\<close> is the time in seconds that the clock measures for its
  task.
\<close>

record ScannerAdapter =
  adapter_name :: string
  adapter_isAvailable :: "bool outcome"
  adapter_scan :: "ScanConfig \<Rightarrow> Finding list outcome"
  elapsed :: real

datatype Call = isAvailable_call | scan_call

text \<open>
  The task of one producer under the limiter: the calls it makes on the producer, the
  findings it appends to \<open>allFindings\<close> and the record it appends to \<open>toolsRun\<close>. The
  probe and the scan stand in one \<open>try\<close> block, whose \<open>catch\<close> writes the record with
  exit code 1.
\<close>

record Task =
  task_calls :: "Call list"
  task_findings :: "Finding list"
  task_run :: ToolRun

definition adapter_task :: "ScanConfig \<Rightarrow> ScannerAdapter \<Rightarrow> Task" where
  "adapter_task config adapter =
     (case adapter_isAvailable adapter of
        Throws msg \<Rightarrow>
          \<lparr>task_calls = [isAvailable_call], task_findings = [],
           task_run = \<lparr>tool_name = adapter_name adapter, tool_version = ''unknown'',
                       tool_duration = elapsed adapter, exitCode = 1,
                       tool_error = Some msg\<rparr>\<rparr>
      | Returns False \<Rightarrow>
          \<lparr>task_calls = [isAvailable_call], task_findings = [],
           task_run = \<lparr>tool_name = adapter_name adapter, tool_version = ''unknown'',
                       tool_duration = 0, exitCode = - 1,
                       tool_error = Some ''Tool not available''\<rparr>\<rparr>
      | Returns True \<Rightarrow>
          (case adapter_scan adapter config of
             Throws msg \<Rightarrow>
               \<lparr>task_calls = [isAvailable_call, scan_call], task_findings = [],
                task_run = \<lparr>tool_name = adapter_name adapter, tool_version = ''unknown'',
                            tool_duration = elapsed adapter, exitCode = 1,
                            tool_error = Some msg\<rparr>\<rparr>
           | Returns fs \<Rightarrow>
               \<lparr>task_calls = [isAvailable_call, scan_call], task_findings = fs,
                task_run = \<lparr>tool_name = adapter_name adapter, tool_version = ''unknown'',
                            tool_duration = elapsed adapter, exitCode = 0,
                            tool_error = None\<rparr>\<rparr>))"

text \<open>
  The two arrays that the tasks share. Between two \<open>await\<close>s a task runs alone, and
  each task writes to the arrays in one such stretch, after its last \<open>await\<close>: the
  arrays are the effects of the tasks, one task after the other, in the order in which
  the tasks complete.
\<close>

record Shared =
  shared_toolsRun :: "ToolRun list"
  shared_allFindings :: "Finding list"

definition complete_task :: "ScanConfig \<Rightarrow> Shared \<Rightarrow> ScannerAdapter \<Rightarrow> Shared" where
  "complete_task config sh adapter =
     (let t = adapter_task config adapter in
      \<lparr>shared_toolsRun = shared_toolsRun sh @ [task_run t],
       shared_allFindings = shared_allFindings sh @ task_findings t\<rparr>)"

definition run_tasks :: "ScanConfig \<Rightarrow> ScannerAdapter list \<Rightarrow> Shared" where
  "run_tasks config adapters =
     foldl (complete_task config) \<lparr>shared_toolsRun = [], shared_allFindings = []\<rparr> adapters"

text \<open>What the clock and the identifier generator give one scan.\<close>

record Clock =
  clock_scanId :: string
  clock_startedAt :: string
  clock_completedAt :: string
  clock_duration :: real

text \<open>
  \<open>scan\<close>, for the producers in the order in which their tasks complete.
\<close>

definition scan :: "Clock \<Rightarrow> ScanConfig \<Rightarrow> ScannerAdapter list \<Rightarrow> ScanResult" where
  "scan clock config adapters =
     (let sh = run_tasks config adapters;
          uniqueFindings = deduplicateFindings (shared_allFindings sh);
          stats = calculateStats uniqueFindings
      in \<lparr>scanId = clock_scanId clock, version = ''1.0.0'',
          startedAt = clock_startedAt clock, completedAt = clock_completedAt clock,
          duration = clock_duration clock, target = scan_target config,
          filesScanned = 0, linesOfCode = 0,
          toolsRun = shared_toolsRun sh, findings = uniqueFindings, suppressed = [],
          stats = stats,
          performance = \<lparr>parallelWorkers = cfg_parallelWorkers config, cacheHitRate = 0,
                          incrementalScan = cfg_incrementalScan config\<rparr>\<rparr>)"

section \<open>The SARIF reporter (SarifReporter)\<close>

definition Severity_text :: "Severity \<Rightarrow> string" where
  "Severity_text s =
     (case s of CRITICAL \<Rightarrow> ''CRITICAL'' | HIGH \<Rightarrow> ''HIGH'' | MEDIUM \<Rightarrow> ''MEDIUM''
      | LOW \<Rightarrow> ''LOW'' | INFO \<Rightarrow> ''INFO'')"

definition Category_text :: "Category \<Rightarrow> string" where
  "Category_text c =
     (case c of secrets \<Rightarrow> ''secrets'' | injection \<Rightarrow> ''injection'' | auth \<Rightarrow> ''auth''
      | crypto \<Rightarrow> ''crypto'' | dependency \<Rightarrow> ''dependency'' | other \<Rightarrow> ''other'')"

definition mapLevel :: "Severity \<Rightarrow> string" where
  "mapLevel sev =
     (case sev of CRITICAL \<Rightarrow> ''error'' | HIGH \<Rightarrow> ''error'' | MEDIUM \<Rightarrow> ''warning''
      | LOW \<Rightarrow> ''warning'' | INFO \<Rightarrow> ''note'')"

definition mapPrecision :: "real \<Rightarrow> string" where
  "mapPrecision c =
     (if c \<ge> 0.9 then ''very-high''
      else if c \<ge> 0.75 then ''high''
      else if c \<ge> 0.5 then ''medium''
      else ''low'')"

definition mapSecuritySeverity :: "Severity \<Rightarrow> string" where
  "mapSecuritySeverity sev =
     (case sev of CRITICAL \<Rightarrow> ''9.0'' | HIGH \<Rightarrow> ''7.0'' | MEDIUM \<Rightarrow> ''5.0''
      | LOW \<Rightarrow> ''3.0'' | INFO \<Rightarrow> ''1.0'')"

text \<open>
  \<open>toRuleName\<close>: the words of the rule id between hyphens, each with its first
  character in upper case, put together.
\<close>

definition capitalize :: "Library \<Rightarrow> string \<Rightarrow> string" where
  "capitalize L word = toUpperCase L (take 1 word) @ drop 1 word"

definition toRuleName :: "Library \<Rightarrow> string \<Rightarrow> string" where
  "toRuleName L rid = concat (map (capitalize L) (split rid CHR ''-''))"

definition backticks :: string where
  "backticks = [CHR 0x60, CHR 0x60, CHR 0x60]"

definition formatHelpMarkdown :: "Finding \<Rightarrow> string" where
  "formatHelpMarkdown finding =
     (let markdown = ''## '' @ title finding @ [newline, newline] @ description finding
                     @ [newline, newline];
          markdown = (case fix_code (remediation finding) of
                        None \<Rightarrow> markdown
                      | Some c \<Rightarrow>
                          if c = [] then markdown
                          else markdown @ ''### Remediation'' @ [newline, newline] @ backticks
                               @ [newline] @ c @ [newline] @ backticks @ [newline, newline]);
          markdown = (if length (references (remediation finding)) > 0
                      then markdown @ ''### References'' @ [newline, newline]
                           @ concat (map (\<lambda>ref. ''- '' @ ref @ [newline])
                                       (references (remediation finding)))
                      else markdown)
      in markdown)"

record SarifRule =
  sarif_id :: string
  sarif_name :: string
  shortDescription_text :: string
  fullDescription_text :: string
  help_text :: string
  help_markdown :: string
  tags :: "string list"
  precision :: string
  security_severity :: string

record SarifResult =
  result_ruleId :: string
  level :: string
  message_text :: string
  artifact_uri :: string
  region_startLine :: int
  region_startColumn :: "int option"
  region_endLine :: "int option"
  region_endColumn :: "int option"
  region_snippet_text :: string

record SarifRun =
  driver_name :: string
  driver_version :: string
  driver_informationUri :: string
  driver_rules :: "SarifRule list"
  results :: "SarifResult list"

record SarifReport =
  sarif_version :: string
  sarif_schema :: string
  runs :: "SarifRun list"

text \<open>The loop of \<open>extractRules\<close>: the first finding of each rule id.\<close>

fun rules_loop :: "Finding list \<Rightarrow> (string, Finding) js_map \<Rightarrow> (string, Finding) js_map" where
  "rules_loop [] rulesMap = rulesMap"
| "rules_loop (finding # rest) rulesMap =
     (if \<not> Map_has rulesMap (ruleId finding)
      then rules_loop rest (Map_set rulesMap (ruleId finding) finding)
      else rules_loop rest rulesMap)"

definition rule_descriptor :: "Library \<Rightarrow> Finding \<Rightarrow> SarifRule" where
  "rule_descriptor L finding =
     \<lparr>sarif_id = ruleId finding,
      sarif_name = toRuleName L (ruleId finding),
      shortDescription_text = title finding,
      fullDescription_text = description finding,
      help_text = summary (remediation finding),
      help_markdown = formatHelpMarkdown finding,
      tags = [Category_text (category finding), ''security''],
      precision = mapPrecision (confidence finding),
      security_severity = mapSecuritySeverity (severity finding)\<rparr>"

definition extractRules :: "Library \<Rightarrow> Finding list \<Rightarrow> SarifRule list" where
  "extractRules L fs = map (rule_descriptor L) (Map_values (rules_loop fs []))"

definition convertToSarifResult :: "Finding \<Rightarrow> SarifResult" where
  "convertToSarifResult finding =
     \<lparr>result_ruleId = ruleId finding,
      level = mapLevel (severity finding),
      message_text = title finding,
      artifact_uri = finding_file finding,
      region_startLine = line finding,
      region_startColumn = column finding,
      region_endLine = endLine finding,
      region_endColumn = endColumn finding,
      region_snippet_text = snippet finding\<rparr>"

text \<open>
  The report that \<open>SarifReporter.generate\<close> builds; the string it returns is the
  runtime's \<open>JSON.stringify\<close> of this report.
\<close>

definition SarifReporter_generate :: "Library \<Rightarrow> ScanResult \<Rightarrow> SarifReport" where
  "SarifReporter_generate L result =
     (let rules = extractRules L (findings result) in
      \<lparr>sarif_version = ''2.1.0'',
       sarif_schema = ''https://json.schemastore.org/sarif-2.1.0.json'',
       runs = [\<lparr>driver_name = ''Unified Security Scanner'',
                 driver_version = version result,
                 driver_informationUri =
                   ''https://github.com/yourusername/unified-security-scanner'',
                 driver_rules = rules,
                 results = map convertToSarifResult (findings result)\<rparr>]\<rparr>)"

section \<open>The tables of the SARIF processor (SARIFProcessor)\<close>

text \<open>
  \<open>SARIFProcessor.generateSARIF\<close> has tables of its own, on the text of a severity.
\<close>

definition mapSeverityToLevel :: "string \<Rightarrow> string" where
  "mapSeverityToLevel sev =
     (if sev = ''CRITICAL'' then ''error''
      else if sev = ''HIGH'' then ''error''
      else if sev = ''MEDIUM'' then ''warning''
      else if sev = ''LOW'' then ''note''
      else ''info'')"

definition mapSeverityToSecuritySeverity :: "string \<Rightarrow> string" where
  "mapSeverityToSecuritySeverity sev =
     (if sev = ''CRITICAL'' then ''9.0''
      else if sev = ''HIGH'' then ''7.0''
      else if sev = ''MEDIUM'' then ''5.0''
      else if sev = ''LOW'' then ''3.0''
      else ''1.0'')"

text \<open>The rule descriptor of \<open>SARIFProcessor.generateRules\<close>.\<close>

record ProcessorRule =
  processor_id :: string
  processor_name :: string
  processor_shortDescription :: string
  processor_fullDescription :: string
  processor_help :: string
  processor_tags :: "string list"
  processor_precision :: string
  processor_security_severity :: string

definition processor_rule :: "Finding \<Rightarrow> ProcessorRule" where
  "processor_rule finding =
     \<lparr>processor_id = ruleId finding,
      processor_name = title finding,
      processor_shortDescription = title finding,
      processor_fullDescription = description finding,
      processor_help = summary (remediation finding),
      processor_tags = [Category_text (category finding)],
      processor_precision = ''high'',
      processor_security_severity =
        mapSeverityToSecuritySeverity (Severity_text (severity finding))\<rparr>"

section \<open>The JSON reporter (JsonReporter) and the runtime's JSON object\<close>

subsection \<open>The values of the language\<close>

text \<open>
  A Number is a double: a finite one, given by its value (the zero among them is
  \<open>+0\<close>), or one of \<open>-0\<close>, \<open>NaN\<close>, \<open>Infinity\<close> and \<open>-Infinity\<close>.
\<close>

datatype js_number = Finite real | NegativeZero | NaN | PositiveInfinity | NegativeInfinity

text \<open>
  The values that a \<open>ScanResult\<close> is made of. An object is the list of its own
  enumerable properties, in the order in which the runtime enumerates them; a real
  object has no two own properties of one name. A property can be present with the
  value \<open>undefined\<close>, which is not the same object as one without the property. (No
  function, symbol, BigInt or \<open>Date\<close> occurs in a \<open>ScanResult\<close>, whose dates are ISO
  strings, and none of its property names is an array index.)
\<close>

datatype js_value =
    JSUndefined
  | JSNull
  | JSBoolean bool
  | JSNumber js_number
  | JSString string
  | JSArray "js_value list"
  | JSObject "(string \<times> js_value) list"


subsection \<open>JSON text\<close>

text \<open>
  The text that \<open>JSON.stringify\<close> returns and \<open>JSON.parse\<close> reads is kept as the JSON
  document that it spells, in the grammar of JSON (ECMA-404): \<open>null\<close>, \<open>true\<close>, \<open>false\<close>,
  a number, a string, an array of documents, or an object, which is a list of members
  in the order of the text. The white space of the indentation (the third argument of
  \<open>JSON.stringify\<close>, here \<open>2\<close>) and the escapes inside a string literal are spelling,
  which \<open>JSON.parse\<close> undoes; a number literal is kept as the double that it denotes,
  the runtime printing a finite double as the shortest decimal that reads back as that
  double.
\<close>

datatype json =
    json_null
  | json_true
  | json_false
  | json_number real
  | json_string string
  | json_array "json list"
  | json_object "(string \<times> json) list"

subsection \<open>\<open>JSON.stringify\<close>\<close>

text \<open>
  \<open>JSON.stringify(value, null, 2)\<close>, by the operations of the language specification
  (ECMA-262, \<open>JSON.stringify\<close>). \<open>SerializeJSONProperty\<close> gives no text for \<open>undefined\<close>,
  \<open>null\<close> for \<open>null\<close> and for a number that is not finite, its decimal for a finite
  number (\<open>-0\<close> is printed as \<open>0\<close>), and the serialization of the elements or of the
  properties for an array or an object. \<open>SerializeJSONArray\<close> writes \<open>null\<close> in the
  place of an element that has no text. \<open>SerializeJSONObject\<close> writes the properties in
  the order of the object and leaves out every property whose value has no text.
  There is no replacer in the call, and no value of a \<open>ScanResult\<close> has a \<open>toJSON\<close>
  method.
\<close>

fun SerializeJSONProperty :: "js_value \<Rightarrow> json option"
  and SerializeJSONArray :: "js_value list \<Rightarrow> json list"
  and SerializeJSONObject :: "(string \<times> js_value) list \<Rightarrow> (string \<times> json) list" where
  "SerializeJSONProperty JSUndefined = None"
| "SerializeJSONProperty JSNull = Some json_null"
| "SerializeJSONProperty (JSBoolean b) = Some (if b then json_true else json_false)"
| "SerializeJSONProperty (JSNumber n) =
     Some (case n of Finite r \<Rightarrow> json_number r
           | NegativeZero \<Rightarrow> json_number 0
           | NaN \<Rightarrow> json_null
           | PositiveInfinity \<Rightarrow> json_null
           | NegativeInfinity \<Rightarrow> json_null)"
| "SerializeJSONProperty (JSString s) = Some (json_string s)"
| "SerializeJSONProperty (JSArray vs) = Some (json_array (SerializeJSONArray vs))"
| "SerializeJSONProperty (JSObject ps) = Some (json_object (SerializeJSONObject ps))"
| "SerializeJSONArray [] = []"
| "SerializeJSONArray (v # vs) =
     (case SerializeJSONProperty v of None \<Rightarrow> json_null | Some j \<Rightarrow> j)
     # SerializeJSONArray vs"
| "SerializeJSONObject [] = []"
| "SerializeJSONObject ((k, v) # ps) =
     (case SerializeJSONProperty v of
        None \<Rightarrow> SerializeJSONObject ps
      | Some j \<Rightarrow> (k, j) # SerializeJSONObject ps)"

text \<open>The call returns \<open>undefined\<close> (here \<open>None\<close>) when the value has no text.\<close>

definition JSON_stringify :: "js_value \<Rightarrow> json option" where
  "JSON_stringify v = SerializeJSONProperty v"

subsection \<open>\<open>JSON.parse\<close>\<close>

text \<open>
  \<open>JSON.parse(text)\<close> without a reviver: the value that the document denotes. The
  members of an object are defined as properties one after the other, in the order of
  the text; a member whose name is already a property replaces the value of that
  property where it stands.
\<close>

definition CreateDataProperty ::
  "(string \<times> js_value) list \<Rightarrow> string \<times> js_value \<Rightarrow> (string \<times> js_value) list" where
  "CreateDataProperty obj p = AList.update (fst p) (snd p) obj"

fun JSON_parse :: "json \<Rightarrow> js_value"
  and parse_elements :: "json list \<Rightarrow> js_value list"
  and parse_members :: "(string \<times> json) list \<Rightarrow> (string \<times> js_value) list" where
  "JSON_parse json_null = JSNull"
| "JSON_parse json_true = JSBoolean True"
| "JSON_parse json_false = JSBoolean False"
| "JSON_parse (json_number r) = JSNumber (Finite r)"
| "JSON_parse (json_string s) = JSString s"
| "JSON_parse (json_array js) = JSArray (parse_elements js)"
| "JSON_parse (json_object ms) = JSObject (foldl CreateDataProperty [] (parse_members ms))"
| "parse_elements [] = []"
| "parse_elements (j # js) = JSON_parse j # parse_elements js"
| "parse_members [] = []"
| "parse_members ((k, j) # ms) = (k, JSON_parse j) # parse_members ms"

subsection \<open>\<open>JsonReporter.generate\<close>\<close>


subsection \<open>A \<open>ScanResult\<close> as a value of the language\<close>
















subsection \<open>What a round trip keeps\<close>

text \<open>
  The value that is left of a value once every property with the value \<open>undefined\<close>
  is taken away, every array element \<open>undefined\<close> and every number that is not finite
  is replaced by \<open>null\<close>, and \<open>-0\<close> is replaced by \<open>0\<close>.
\<close>

fun JSON_normal_form :: "js_value \<Rightarrow> js_value"
  and normal_elements :: "js_value list \<Rightarrow> js_value list"
  and normal_properties :: "(string \<times> js_value) list \<Rightarrow> (string \<times> js_value) list" where
  "JSON_normal_form JSUndefined = JSUndefined"
| "JSON_normal_form JSNull = JSNull"
| "JSON_normal_form (JSBoolean b) = JSBoolean b"
| "JSON_normal_form (JSNumber n) =
     (case n of Finite r \<Rightarrow> JSNumber (Finite r)
      | NegativeZero \<Rightarrow> JSNumber (Finite 0)
      | NaN \<Rightarrow> JSNull
      | PositiveInfinity \<Rightarrow> JSNull
      | NegativeInfinity \<Rightarrow> JSNull)"
| "JSON_normal_form (JSString s) = JSString s"
| "JSON_normal_form (JSArray vs) = JSArray (normal_elements vs)"
| "JSON_normal_form (JSObject ps) = JSObject (normal_properties ps)"
| "normal_elements [] = []"
| "normal_elements (v # vs) =
     (if v = JSUndefined then JSNull else JSON_normal_form v) # normal_elements vs"
| "normal_properties [] = []"
| "normal_properties ((k, v) # ps) =
     (if v = JSUndefined then normal_properties ps
      else (k, JSON_normal_form v) # normal_properties ps)"

text \<open>
  A value is safe when neither it nor any value inside it is \<open>undefined\<close>, a number
  that is not finite, or \<open>-0\<close>.
\<close>

fun JSON_safe :: "js_value \<Rightarrow> bool"
  and JSON_safe_elements :: "js_value list \<Rightarrow> bool"
  and JSON_safe_properties :: "(string \<times> js_value) list \<Rightarrow> bool" where
  "JSON_safe JSUndefined = False"
| "JSON_safe JSNull = True"
| "JSON_safe (JSBoolean b) = True"
| "JSON_safe (JSNumber n) = (case n of Finite r \<Rightarrow> True | _ \<Rightarrow> False)"
| "JSON_safe (JSString s) = True"
| "JSON_safe (JSArray vs) = JSON_safe_elements vs"
| "JSON_safe (JSObject ps) = JSON_safe_properties ps"
| "JSON_safe_elements [] = True"
| "JSON_safe_elements (v # vs) = (JSON_safe v \<and> JSON_safe_elements vs)"
| "JSON_safe_properties [] = True"
| "JSON_safe_properties ((k, v) # ps) = (JSON_safe v \<and> JSON_safe_properties ps)"

text \<open>
  The lists of properties in a value are those of objects: no object in it has two
  own properties of one name.
\<close>

fun own_keys_distinct :: "js_value \<Rightarrow> bool"
  and own_keys_distinct_elements :: "js_value list \<Rightarrow> bool"
  and own_keys_distinct_properties :: "(string \<times> js_value) list \<Rightarrow> bool" where
  "own_keys_distinct (JSArray vs) = own_keys_distinct_elements vs"
| "own_keys_distinct (JSObject ps) = (distinct (map fst ps) \<and> own_keys_distinct_properties ps)"
| "own_keys_distinct v = True"
| "own_keys_distinct_elements [] = True"
| "own_keys_distinct_elements (v # vs) = (own_keys_distinct v \<and> own_keys_distinct_elements vs)"
| "own_keys_distinct_properties [] = True"
| "own_keys_distinct_properties ((k, v) # ps) =
     (own_keys_distinct v \<and> own_keys_distinct_properties ps)"

section \<open>Two operations as the specification words them\<close>

text \<open>
  The inline suppression directive of the specification: the finding's own line of
  the file, or the line immediately before it, contains a marker.
\<close>

definition spec_inline_directive :: "string \<Rightarrow> int \<Rightarrow> bool" where
  "spec_inline_directive content lineNumber =
     (let lines = split content newline;
          ownLine = at_index lines (lineNumber - 1);
          precedingLine = at_index lines (lineNumber - 2)
      in line_includes ownLine ''nosec'' \<or> line_includes ownLine ''noqa''
         \<or> line_includes precedingLine ''nosec'' \<or> line_includes precedingLine ''noqa'')"

text \<open>
  The deduplicator of the specification: the same fold, on a mapping from the identity
  \<open>(file, line, ruleId)\<close> to the best finding of that identity.
\<close>

definition identity_key :: "Finding \<Rightarrow> string \<times> int \<times> string" where
  "identity_key finding = (finding_file finding, line finding, ruleId finding)"

definition spec_dedupe_step ::
  "(string \<times> int \<times> string, Finding) js_map \<Rightarrow> Finding
     \<Rightarrow> (string \<times> int \<times> string, Finding) js_map" where
  "spec_dedupe_step best finding =
     (case Map_get best (identity_key finding) of
        None \<Rightarrow> Map_set best (identity_key finding) finding
      | Some existing \<Rightarrow>
          if confidence finding > confidence existing
          then Map_set best (identity_key finding) finding
          else best)"

fun spec_dedupe_loop ::
  "Finding list \<Rightarrow> (string \<times> int \<times> string, Finding) js_map
     \<Rightarrow> (string \<times> int \<times> string, Finding) js_map" where
  "spec_dedupe_loop [] best = best"
| "spec_dedupe_loop (finding # rest) best =
     spec_dedupe_loop rest (spec_dedupe_step best finding)"

definition spec_dedupe :: "Finding list \<Rightarrow> Finding list" where
  "spec_dedupe raw = Map_values (spec_dedupe_loop raw [])"

section \<open>Test data\<close>

text \<open>
  The configuration of \<open>tests/scanner.test.ts\<close>, with the default exclusions switched
  off, and the first finding of its deduplication test.
\<close>

definition mockConfig :: ScanConfig where
  "mockConfig =
     \<lparr>scan_target = ''.'', cfg_parallelWorkers = 4, cfg_incrementalScan = False,
      excludeTestFiles = False, patterns = []\<rparr>"

definition finding1 :: Finding where
  "finding1 =
     \<lparr>finding_id = ''test-1'', ruleId = ''duplicate-rule'', source = truffleHog,
      severity = HIGH, category = secrets, cwe = None, owasp = None,
      finding_file = ''test.ts'', line = 10, column = None, endLine = None,
      endColumn = None, title = ''Duplicate finding'', description = ''First'',
      snippet = ''test'',
      remediation = \<lparr>summary = ''Fix'', fix_code = None, references = [],
                      effort = effort_low\<rparr>,
      confidence = 0.8, falsePositiveProbability = None, suppressedBy = None,
      detectedAt = ''2025-11-11T00:00:00.000Z'', firstSeenAt = None\<rparr>"

text \<open>
  A runtime for the examples: no glob and no regular expression matches, every glob
  and every custom pattern compiles, no file can be read, and \<open>toUpperCase\<close> changes
  nothing. The examples that use it ask it about no glob and no text that would match,
  and none of them looks at the name of a rule.
\<close>

definition quiet_library :: Library where
  "quiet_library =
     \<lparr>isMatch = (\<lambda>path globs. Inr False), literal_test = (\<lambda>r s. False),
      RegExp_test = (\<lambda>p s. Some False), readFile = (\<lambda>path. None),
      toUpperCase = (\<lambda>s. s)\<rparr>"

definition mockClock :: Clock where
  "mockClock =
     \<lparr>clock_scanId = ''scan-1'', clock_startedAt = ''2025-11-11T00:00:00.000Z'',
      clock_completedAt = ''2025-11-11T00:00:01.000Z'', clock_duration = 1\<rparr>"

text \<open>A producer that returns the given findings, as the \<open>MockAdapter\<close> of the tests.\<close>

definition MockAdapter :: "Finding list \<Rightarrow> ScannerAdapter" where
  "MockAdapter fs =
     \<lparr>adapter_name = ''mock-adapter'', adapter_isAvailable = Returns True,
      adapter_scan = (\<lambda>config. Returns fs), elapsed = 0.01\<rparr>"

text \<open>A producer whose probe answers no, and one whose probe throws.\<close>

definition AbsentAdapter :: ScannerAdapter where
  "AbsentAdapter =
     \<lparr>adapter_name = ''absent-adapter'', adapter_isAvailable = Returns False,
      adapter_scan = (\<lambda>config. Returns [finding1]), elapsed = 0.01\<rparr>"

definition BrokenProbeAdapter :: ScannerAdapter where
  "BrokenProbeAdapter =
     \<lparr>adapter_name = ''broken-probe-adapter'', adapter_isAvailable = Throws ''spawn ENOENT'',
      adapter_scan = (\<lambda>config. Returns [finding1]), elapsed = 0.01\<rparr>"

text \<open>
  A finding whose snippet names a mock key, in a file that no exclusion covers.
\<close>

definition mock_key_finding :: Finding where
  "mock_key_finding =
     finding1\<lparr>finding_file := ''src/config.ts'', snippet := ''const MOCK_API_KEY = 1''\<rparr>"

text \<open>
  The second finding of that test: the same file, line and rule, with a higher
  confidence.
\<close>

definition finding1_again :: Finding where
  "finding1_again = finding1\<lparr>finding_id := ''test-2'', confidence := 0.95\<rparr>"

text \<open>
  A second finding of the same rule, with another title and on another line, a
  finding of another rule, and a result that keeps the three of them.
\<close>

definition finding2 :: Finding where
  "finding2 =
     finding1\<lparr>finding_id := ''test-2'', line := 20, title := ''Second title'',
              description := ''Second'', severity := LOW, confidence := 0.95\<rparr>"

definition finding3 :: Finding where
  "finding3 =
     finding1\<lparr>finding_id := ''test-3'', ruleId := ''other-rule'', source := semgrep,
              severity := INFO, category := injection, finding_file := ''src/app.ts'',
              title := ''Other finding'', confidence := 0.6\<rparr>"

definition mockResult :: ScanResult where
  "mockResult =
     \<lparr>scanId = ''scan-1'', version = ''1.0.0'', startedAt = ''2025-11-11T00:00:00.000Z'',
      completedAt = ''2025-11-11T00:00:01.000Z'', duration = 1, target = ''.'',
      filesScanned = 0, linesOfCode = 0, toolsRun = [],
      findings = [finding1, finding2, finding3], suppressed = [],
      stats = calculateStats [finding1, finding2, finding3],
      performance = \<lparr>parallelWorkers = 4, cacheHitRate = 0, incrementalScan = False\<rparr>\<rparr>"

text \<open>
  A custom rule for Python files, and an engine with this rule and without the default
  exclusions.
\<close>

definition python_rule :: SuppressionRule where
  "python_rule =
     \<lparr>rule_file = ''**/*.py'', rule_pattern = ''password'',
      rule_reason = ''Python fixtures''\<rparr>"

definition ruleEngine :: Engine where
  "ruleEngine = FalsePositiveRuleEngine (mockConfig\<lparr>patterns := [python_rule]\<rparr>)"

text \<open>
  A file of twelve lines with a marker on line 8, a runtime that reads it, and two
  findings in it, on line 8 and on line 7.
\<close>

definition app_lines :: "string list" where
  "app_lines =
     [''a1'', ''a2'', ''a3'', ''a4'', ''a5'', ''a6'', ''a7'', ''k8 // nosec'', ''a9'',
      ''a10'', ''a11'', ''a12'']"

definition app_text :: string where
  "app_text = join app_lines [newline]"

text \<open>A file of three lines with a marker on line 2, and a finding on its line 3.\<close>

definition lint_lines :: "string list" where
  "lint_lines = [''import os'', ''x = eval(s)  # noqa'', ''y = x'']"

definition lint_text :: string where
  "lint_text = join lint_lines [newline]"

definition finding_lint :: Finding where
  "finding_lint = finding1\<lparr>finding_file := ''src/lint.py'', line := 3, snippet := ''y = x''\<rparr>"

definition app_library :: Library where
  "app_library =
     quiet_library
       \<lparr>readFile := (\<lambda>path. if path = ''src/app.ts'' then Some app_text
                          else if path = ''src/lint.py'' then Some lint_text
                          else None)\<rparr>"

definition finding_line8 :: Finding where
  "finding_line8 =
     finding1\<lparr>finding_file := ''src/app.ts'', line := 8, snippet := ''k8 // nosec''\<rparr>"

definition finding_line7 :: Finding where
  "finding_line7 = finding1\<lparr>finding_file := ''src/app.ts'', line := 7, snippet := ''a7''\<rparr>"

text \<open>The context windows of the two findings: lines 3 to 12, and lines 2 to 12.\<close>

definition window8 :: string where
  "window8 =
     join [''a3'', ''a4'', ''a5'', ''a6'', ''a7'', ''k8 // nosec'', ''a9'', ''a10'', ''a11'',
           ''a12''] [newline]"

definition window7 :: string where
  "window7 =
     join [''a2'', ''a3'', ''a4'', ''a5'', ''a6'', ''a7'', ''k8 // nosec'', ''a9'', ''a10'',
           ''a11'', ''a12''] [newline]"

text \<open>
  Two findings with different identities whose key strings are the same,
  \<open>a.ts:7:3:r1\<close>.
\<close>

definition colliding1 :: Finding where
  "colliding1 =
     finding1\<lparr>finding_id := ''c-1'', finding_file := ''a.ts'', line := 7, ruleId := ''3:r1'',
              confidence := 0.5\<rparr>"

definition colliding2 :: Finding where
  "colliding2 =
     finding1\<lparr>finding_id := ''c-2'', finding_file := ''a.ts:7'', line := 3, ruleId := ''r1'',
              confidence := 0.9\<rparr>"





text \<open>
  A value with a property and an array element \<open>undefined\<close>, with \<open>NaN\<close> and with
  \<open>-0\<close>, and a rule engine whose one custom rule has the empty string as its glob.
\<close>

definition lossy_value :: js_value where
  "lossy_value =
     JSObject [(''a'', JSArray [JSNumber NaN, JSUndefined, JSNumber NegativeZero]),
               (''b'', JSUndefined), (''c'', JSNumber (Finite 1.5))]"

definition emptyGlobEngine :: Engine where
  "emptyGlobEngine =
     FalsePositiveRuleEngine (mockConfig\<lparr>patterns := [python_rule\<lparr>rule_file := []\<rparr>]\<rparr>)"

section \<open>Properties of the statistics aggregator\<close>

lemma increment_keys: "map fst (increment k al) = map fst al"
  by (induction al) auto

lemma map_of_increment:
  "map_of (increment k al) k' =
     (if k' = k then map_option Suc (map_of al k') else map_of al k')"
  by (induction al) auto

lemma sum_increment:
  "k \<in> fst ` set al \<Longrightarrow> sum_list (map snd (increment k al)) = Suc (sum_list (map snd al))"
  by (induction al) force+

lemma stats_loop_total: "total (stats_loop fs st) = total st"
  by (induction fs arbitrary: st) auto

lemma stats_loop_suppressedCount: "suppressedCount (stats_loop fs st) = suppressedCount st"
  by (induction fs arbitrary: st) auto

lemma stats_loop_keys:
  "map fst (bySeverity (stats_loop fs st)) = map fst (bySeverity st)"
  "map fst (byCategory (stats_loop fs st)) = map fst (byCategory st)"
  "map fst (bySource (stats_loop fs st)) = map fst (bySource st)"
  by (induction fs arbitrary: st) (auto simp: increment_keys)

text \<open>Each counter ends at its initial value plus the number of matching findings.\<close>

lemma stats_loop_bySeverity:
  "map_of (bySeverity (stats_loop fs st)) sev =
     map_option (\<lambda>n. n + length (filter (\<lambda>f. severity f = sev) fs))
       (map_of (bySeverity st) sev)"
proof (induction fs arbitrary: st)
  case Nil
  show ?case by (cases "map_of (bySeverity st) sev") simp_all
next
  case (Cons f fs)
  show ?case
    by (cases "map_of (bySeverity st) sev") (auto simp: Cons.IH map_of_increment)
qed

lemma stats_loop_byCategory:
  "map_of (byCategory (stats_loop fs st)) cat =
     map_option (\<lambda>n. n + length (filter (\<lambda>f. category f = cat) fs))
       (map_of (byCategory st) cat)"
proof (induction fs arbitrary: st)
  case Nil
  show ?case by (cases "map_of (byCategory st) cat") simp_all
next
  case (Cons f fs)
  show ?case
    by (cases "map_of (byCategory st) cat") (auto simp: Cons.IH map_of_increment)
qed

lemma stats_loop_bySource:
  "map_of (bySource (stats_loop fs st)) src =
     map_option (\<lambda>n. n + length (filter (\<lambda>f. source f = src) fs))
       (map_of (bySource st) src)"
proof (induction fs arbitrary: st)
  case Nil
  show ?case by (cases "map_of (bySource st) src") simp_all
next
  case (Cons f fs)
  show ?case
    by (cases "map_of (bySource st) src") (auto simp: Cons.IH map_of_increment)
qed

text \<open>
  The sum of a record of counters grows by one with each finding, as long as the
  record holds every key.
\<close>

lemma fst_set_increment: "fst ` set (increment k al) = fst ` set al"
  using increment_keys [of k al] by (metis set_map)

lemma stats_loop_sums:
  assumes "fst ` set (bySeverity st) = UNIV" and "fst ` set (byCategory st) = UNIV"
    and "fst ` set (bySource st) = UNIV"
  shows "sum_list (map snd (bySeverity (stats_loop fs st))) =
           sum_list (map snd (bySeverity st)) + length fs
         \<and> sum_list (map snd (byCategory (stats_loop fs st))) =
           sum_list (map snd (byCategory st)) + length fs
         \<and> sum_list (map snd (bySource (stats_loop fs st))) =
           sum_list (map snd (bySource st)) + length fs"
  using assms
proof (induction fs arbitrary: st)
  case Nil
  show ?case by simp
next
  case (Cons f fs)
  let ?st = "st\<lparr>bySeverity := increment (severity f) (bySeverity st),
                 byCategory := increment (category f) (byCategory st),
                 bySource := increment (source f) (bySource st)\<rparr>"
  have k1: "severity f \<in> fst ` set (bySeverity st)"
    and k2: "category f \<in> fst ` set (byCategory st)"
    and k3: "source f \<in> fst ` set (bySource st)"
    using Cons.prems by simp_all
  have "fst ` set (bySeverity ?st) = UNIV" and "fst ` set (byCategory ?st) = UNIV"
    and "fst ` set (bySource ?st) = UNIV"
    using Cons.prems by (simp_all add: fst_set_increment)
  from Cons.IH [OF this] show ?case
    by (simp add: sum_increment [OF k1] sum_increment [OF k2] sum_increment [OF k3])
qed

lemma Severity_UNIV: "fst ` set bySeverity_init = UNIV"
proof -
  have "sev \<in> fst ` set bySeverity_init" for sev
    by (cases sev) (simp_all add: bySeverity_init_def)
  then show ?thesis by blast
qed

lemma Category_UNIV: "fst ` set byCategory_init = UNIV"
proof -
  have "cat \<in> fst ` set byCategory_init" for cat
    by (cases cat) (simp_all add: byCategory_init_def)
  then show ?thesis by blast
qed

lemma ScanSource_UNIV: "fst ` set bySource_init = UNIV"
proof -
  have "src \<in> fst ` set bySource_init" for src
    by (cases src) (simp_all add: bySource_init_def)
  then show ?thesis by blast
qed

lemma map_of_bySeverity_init: "map_of bySeverity_init sev = Some 0"
  by (cases sev) (simp_all add: bySeverity_init_def)

lemma map_of_byCategory_init: "map_of byCategory_init cat = Some 0"
  by (cases cat) (simp_all add: byCategory_init_def)

lemma map_of_bySource_init: "map_of bySource_init src = Some 0"
  by (cases src) (simp_all add: bySource_init_def)

lemma calculateStats_keys:
  "map fst (bySeverity (calculateStats kept)) = [CRITICAL, HIGH, MEDIUM, LOW, INFO]"
  "map fst (byCategory (calculateStats kept)) =
     [secrets, injection, auth, crypto, dependency, other]"
  "map fst (bySource (calculateStats kept)) =
     [truffleHog, semgrep, custom_npm, custom_react, custom_secrets]"
  by (simp_all add: calculateStats_def stats_loop_keys bySeverity_init_def
      byCategory_init_def bySource_init_def)

lemma calculateStats_counts:
  "map_of (bySeverity (calculateStats kept)) sev =
     Some (length (filter (\<lambda>f. severity f = sev) kept))"
  "map_of (byCategory (calculateStats kept)) cat =
     Some (length (filter (\<lambda>f. category f = cat) kept))"
  "map_of (bySource (calculateStats kept)) src =
     Some (length (filter (\<lambda>f. source f = src) kept))"
  by (simp_all add: calculateStats_def stats_loop_bySeverity stats_loop_byCategory
      stats_loop_bySource map_of_bySeverity_init map_of_byCategory_init map_of_bySource_init)

lemma calculateStats_total: "total (calculateStats kept) = length kept"
  by (simp add: calculateStats_def stats_loop_total)

lemma calculateStats_suppressedCount: "suppressedCount (calculateStats kept) = 0"
  by (simp add: calculateStats_def stats_loop_suppressedCount)

lemma calculateStats_sums:
  "sum_list (map snd (bySeverity (calculateStats kept))) = length kept"
  "sum_list (map snd (byCategory (calculateStats kept))) = length kept"
  "sum_list (map snd (bySource (calculateStats kept))) = length kept"
proof -
  let ?init = "\<lparr>total = length kept, bySeverity = bySeverity_init,
                 byCategory = byCategory_init, bySource = bySource_init,
                 suppressedCount = 0\<rparr>"
  have "fst ` set (bySeverity ?init) = UNIV" and "fst ` set (byCategory ?init) = UNIV"
    and "fst ` set (bySource ?init) = UNIV"
    by (simp_all add: Severity_UNIV Category_UNIV ScanSource_UNIV)
  from stats_loop_sums [OF this, of kept]
  show "sum_list (map snd (bySeverity (calculateStats kept))) = length kept"
    and "sum_list (map snd (byCategory (calculateStats kept))) = length kept"
    and "sum_list (map snd (bySource (calculateStats kept))) = length kept"
    by (simp_all add: calculateStats_def bySeverity_init_def byCategory_init_def
        bySource_init_def)
qed

text \<open>
  Claim C4. For every list of kept findings, \<open>calculateStats\<close> returns a statistics
  block that holds every severity, every category and every source as a key; each
  counter is the number of kept findings with that severity, category or source (zero
  when there is none); \<open>total\<close> is the number of kept findings; and the counters of
  \<open>bySeverity\<close> add up to \<open>total\<close>, as do those of \<open>byCategory\<close> and of \<open>bySource\<close>.
\<close>

theorem calculateStats_buckets:
  "map fst (bySeverity (calculateStats kept)) = [CRITICAL, HIGH, MEDIUM, LOW, INFO]
   \<and> map fst (byCategory (calculateStats kept)) =
       [secrets, injection, auth, crypto, dependency, other]
   \<and> map fst (bySource (calculateStats kept)) =
       [truffleHog, semgrep, custom_npm, custom_react, custom_secrets]
   \<and> (\<forall>sev. map_of (bySeverity (calculateStats kept)) sev =
         Some (length (filter (\<lambda>f. severity f = sev) kept)))
   \<and> (\<forall>cat. map_of (byCategory (calculateStats kept)) cat =
         Some (length (filter (\<lambda>f. category f = cat) kept)))
   \<and> (\<forall>src. map_of (bySource (calculateStats kept)) src =
         Some (length (filter (\<lambda>f. source f = src) kept)))
   \<and> total (calculateStats kept) = length kept
   \<and> sum_list (map snd (bySeverity (calculateStats kept))) = total (calculateStats kept)
   \<and> sum_list (map snd (byCategory (calculateStats kept))) = total (calculateStats kept)
   \<and> sum_list (map snd (bySource (calculateStats kept))) = total (calculateStats kept)"
  by (simp only: calculateStats_keys calculateStats_counts calculateStats_total
      calculateStats_sums simp_thms)

theorem calculateStats_buckets_witness:
  "bySeverity (calculateStats [finding1, finding2, finding3]) =
     [(CRITICAL, 0), (HIGH, 1), (MEDIUM, 0), (LOW, 1), (INFO, 1)]
   \<and> total (calculateStats [finding1, finding2, finding3]) = 3
   \<and> sum_list (map snd (bySeverity (calculateStats [finding1, finding2, finding3]))) = 3
   \<and> sum_list (map snd (byCategory (calculateStats [finding1, finding2, finding3]))) = 3
   \<and> sum_list (map snd (bySource (calculateStats [finding1, finding2, finding3]))) = 3"
proof -
  note t = calculateStats_buckets [of "[finding1, finding2, finding3]"]
  from t have total: "total (calculateStats [finding1, finding2, finding3]) = 3"
    by simp
  from t have "sum_list (map snd (bySeverity (calculateStats [finding1, finding2, finding3])))
                 = total (calculateStats [finding1, finding2, finding3])"
    and "sum_list (map snd (byCategory (calculateStats [finding1, finding2, finding3])))
                 = total (calculateStats [finding1, finding2, finding3])"
    and "sum_list (map snd (bySource (calculateStats [finding1, finding2, finding3])))
                 = total (calculateStats [finding1, finding2, finding3])"
    by blast+
  then have sums:
    "sum_list (map snd (bySeverity (calculateStats [finding1, finding2, finding3]))) = 3"
    "sum_list (map snd (byCategory (calculateStats [finding1, finding2, finding3]))) = 3"
    "sum_list (map snd (bySource (calculateStats [finding1, finding2, finding3]))) = 3"
    by (simp_all only: total)
  have "bySeverity (calculateStats [finding1, finding2, finding3]) =
     [(CRITICAL, 0), (HIGH, 1), (MEDIUM, 0), (LOW, 1), (INFO, 1)]"
    by (simp add: calculateStats_def bySeverity_init_def finding1_def finding2_def
        finding3_def)
  with total sums show ?thesis by (intro conjI)
qed

section \<open>Properties of the coordinator\<close>

lemma foldl_complete_task:
  "foldl (complete_task config) sh adapters =
     \<lparr>shared_toolsRun =
        shared_toolsRun sh @ map (\<lambda>a. task_run (adapter_task config a)) adapters,
      shared_allFindings =
        shared_allFindings sh
        @ concat (map (\<lambda>a. task_findings (adapter_task config a)) adapters)\<rparr>"
  by (induction adapters arbitrary: sh) (simp_all add: complete_task_def Let_def)

lemma scan_toolsRun:
  "toolsRun (scan clock config adapters) =
     map (\<lambda>a. task_run (adapter_task config a)) adapters"
  by (simp add: scan_def run_tasks_def foldl_complete_task Let_def)

lemma scan_findings:
  "findings (scan clock config adapters) =
     deduplicateFindings
       (concat (map (\<lambda>a. task_findings (adapter_task config a)) adapters))"
  by (simp add: scan_def run_tasks_def foldl_complete_task Let_def)

lemma scan_stats:
  "stats (scan clock config adapters) = calculateStats (findings (scan clock config adapters))"
  by (simp add: scan_def Let_def)

lemma scan_suppressed: "suppressed (scan clock config adapters) = []"
  by (simp add: scan_def Let_def)

lemma MockAdapter_task:
  "adapter_task config (MockAdapter fs) =
     \<lparr>task_calls = [isAvailable_call, scan_call], task_findings = fs,
      task_run = \<lparr>tool_name = ''mock-adapter'', tool_version = ''unknown'',
                  tool_duration = 0.01, exitCode = 0, tool_error = None\<rparr>\<rparr>"
  by (simp add: adapter_task_def MockAdapter_def)

lemma AbsentAdapter_task:
  "adapter_task config AbsentAdapter =
     \<lparr>task_calls = [isAvailable_call], task_findings = [],
      task_run = \<lparr>tool_name = ''absent-adapter'', tool_version = ''unknown'',
                  tool_duration = 0, exitCode = - 1,
                  tool_error = Some ''Tool not available''\<rparr>\<rparr>"
  by (simp add: adapter_task_def AbsentAdapter_def)

lemma dedup_key_mock_key_finding:
  "dedup_key mock_key_finding = ''src/config.ts:10:duplicate-rule''"
  by (simp add: dedup_key_def mock_key_finding_def finding1_def Number_toString_def
      digits.simps)

lemma deduplicate_single: "deduplicateFindings [f] = [f]"
  by (simp add: deduplicateFindings_def dedup_step_def Map_values_def Map_has_def Map_set_def)

lemma hasTestPrefix_mock_key: "hasTestPrefix ''const MOCK_API_KEY = 1''"
  by (simp add: hasTestPrefix_def TEST_PREFIXES_def)

lemma shouldSuppress_mock_key_finding:
  "shouldSuppress quiet_library (FalsePositiveRuleEngine mockConfig) mock_key_finding =
     Inr (suppress_because ''Variable has test/mock prefix (MOCK_, TEST_, etc.)'')"
  by (simp add: shouldSuppress_def matchesExclusionPattern_def micromatch_isMatch_def
      FalsePositiveRuleEngine_def mockConfig_def quiet_library_def mock_key_finding_def
      finding1_def hasTestPrefix_mock_key)

text \<open>
  Claim C1 as stated fails: \<open>scan\<close> never calls the suppression engine. A producer
  reports one finding whose snippet names a mock key; the engine, given the
  deduplicated findings, suppresses it, but the result of \<open>scan\<close> keeps it among its
  findings and has an empty suppressed list.
\<close>

theorem scan_skips_suppression_counterexample:
  "findings (scan mockClock mockConfig [MockAdapter [mock_key_finding]]) = [mock_key_finding]
   \<and> suppressed (scan mockClock mockConfig [MockAdapter [mock_key_finding]]) = []
   \<and> filterFindings quiet_library (FalsePositiveRuleEngine mockConfig)
        (deduplicateFindings [mock_key_finding]) =
      Inr ([], [mock_key_finding
                  \<lparr>suppressedBy :=
                     Some ''Variable has test/mock prefix (MOCK_, TEST_, etc.)''\<rparr>])"
proof -
  have "findings (scan mockClock mockConfig [MockAdapter [mock_key_finding]]) =
          [mock_key_finding]"
    by (simp add: scan_findings MockAdapter_task deduplicate_single)
  moreover have "suppressed (scan mockClock mockConfig [MockAdapter [mock_key_finding]]) = []"
    by (rule scan_suppressed)
  moreover have "filterFindings quiet_library (FalsePositiveRuleEngine mockConfig)
        (deduplicateFindings [mock_key_finding]) =
      Inr ([], [mock_key_finding
                  \<lparr>suppressedBy :=
                     Some ''Variable has test/mock prefix (MOCK_, TEST_, etc.)''\<rparr>])"
    by (simp add: deduplicate_single filterFindings_def shouldSuppress_mock_key_finding
        suppress_because_def)
  ultimately show ?thesis by simp
qed

text \<open>
  Claim C1, amended. For every configuration and every list of producers, in any
  order of completion, \<open>scan\<close> passes the raw findings of the producers to the
  deduplicator and the deduplicator's output to the statistics aggregator; it returns
  a result whose findings are the deduplicator's output, whose statistics are those of
  these findings, whose suppressed list is empty, and whose \<open>suppressedCount\<close> is the
  length of that list, zero. The suppression engine is no part of \<open>scan\<close>.
\<close>

theorem scan_pipeline:
  "findings (scan clock config adapters) =
     deduplicateFindings
       (concat (map (\<lambda>a. task_findings (adapter_task config a)) adapters))
   \<and> stats (scan clock config adapters) =
       calculateStats (findings (scan clock config adapters))
   \<and> suppressed (scan clock config adapters) = []
   \<and> suppressedCount (stats (scan clock config adapters)) =
       length (suppressed (scan clock config adapters))"
proof -
  have dedup: "findings (scan clock config adapters) =
     deduplicateFindings
       (concat (map (\<lambda>a. task_findings (adapter_task config a)) adapters))"
    by (rule scan_findings)
  have aggregate: "stats (scan clock config adapters) =
       calculateStats (findings (scan clock config adapters))"
    by (rule scan_stats)
  have none: "suppressed (scan clock config adapters) = []"
    by (rule scan_suppressed)
  have "suppressedCount (stats (scan clock config adapters)) = 0"
    by (simp only: aggregate calculateStats_suppressedCount)
  then have count: "suppressedCount (stats (scan clock config adapters)) =
       length (suppressed (scan clock config adapters))"
    by (simp add: none)
  from dedup aggregate none count show ?thesis by (intro conjI)
qed

theorem scan_pipeline_witness:
  "findings (scan mockClock mockConfig [MockAdapter [finding1], AbsentAdapter]) = [finding1]
   \<and> total (stats (scan mockClock mockConfig [MockAdapter [finding1], AbsentAdapter])) = 1
   \<and> suppressed (scan mockClock mockConfig [MockAdapter [finding1], AbsentAdapter]) = []
   \<and> suppressedCount (stats (scan mockClock mockConfig [MockAdapter [finding1], AbsentAdapter]))
       = 0"
proof -
  let ?r = "scan mockClock mockConfig [MockAdapter [finding1], AbsentAdapter]"
  have raw: "concat (map (\<lambda>a. task_findings (adapter_task mockConfig a))
               [MockAdapter [finding1], AbsentAdapter]) = [finding1]"
    by (simp add: MockAdapter_task AbsentAdapter_task)
  note p = scan_pipeline [of mockClock mockConfig "[MockAdapter [finding1], AbsentAdapter]"]
  from p have f: "findings ?r = [finding1]"
    by (simp only: raw deduplicate_single)
  from p have "stats ?r = calculateStats (findings ?r)" by blast
  then have t: "total (stats ?r) = 1"
    by (simp add: f calculateStats_total)
  from p have s: "suppressed ?r = []" by blast
  from p have "suppressedCount (stats ?r) = length (suppressed ?r)" by blast
  then have c: "suppressedCount (stats ?r) = 0" by (simp add: s)
  from f t s c show ?thesis by simp
qed

text \<open>
  Claim C5 as stated fails for a probe that throws: the probe stands in the same
  \<open>try\<close> block as the scan, so the record is the one of an execution error, with exit
  code 1 and the text of the error, and not the record of an unavailable tool, with
  exit code -1 and the text \<open>Tool not available\<close>.
\<close>

theorem thrown_probe_counterexample:
  "task_run (adapter_task mockConfig BrokenProbeAdapter) =
     \<lparr>tool_name = ''broken-probe-adapter'', tool_version = ''unknown'',
      tool_duration = 0.01, exitCode = 1, tool_error = Some ''spawn ENOENT''\<rparr>
   \<and> exitCode (task_run (adapter_task mockConfig BrokenProbeAdapter)) \<noteq> - 1
   \<and> tool_error (task_run (adapter_task mockConfig BrokenProbeAdapter))
       \<noteq> Some ''Tool not available''"
  by (simp add: adapter_task_def BrokenProbeAdapter_def)

text \<open>
  Claim C5, amended. For every producer whose availability probe returns false, the
  coordinator records a run with exit code -1 and the error \<open>Tool not available\<close>, and
  never calls the producer's scan. For every producer whose probe throws, the
  coordinator records a run with exit code 1 and the text of the thrown error, as for
  a scan that throws, and never calls the producer's scan either. In both cases the
  producer contributes no finding, and the record is in \<open>toolsRun\<close> of the result.
\<close>

theorem probe_outcomes:
  "(adapter_isAvailable a = Returns False \<longrightarrow>
      task_run (adapter_task config a) =
        \<lparr>tool_name = adapter_name a, tool_version = ''unknown'', tool_duration = 0,
         exitCode = - 1, tool_error = Some ''Tool not available''\<rparr>
      \<and> scan_call \<notin> set (task_calls (adapter_task config a))
      \<and> task_findings (adapter_task config a) = [])
   \<and> (adapter_isAvailable a = Throws msg \<longrightarrow>
      task_run (adapter_task config a) =
        \<lparr>tool_name = adapter_name a, tool_version = ''unknown'',
         tool_duration = elapsed a, exitCode = 1, tool_error = Some msg\<rparr>
      \<and> scan_call \<notin> set (task_calls (adapter_task config a))
      \<and> task_findings (adapter_task config a) = [])
   \<and> (a \<in> set adapters \<longrightarrow>
      task_run (adapter_task config a) \<in> set (toolsRun (scan clock config adapters)))"
proof (intro conjI impI)
  assume "adapter_isAvailable a = Returns False"
  then show "task_run (adapter_task config a) =
        \<lparr>tool_name = adapter_name a, tool_version = ''unknown'', tool_duration = 0,
         exitCode = - 1, tool_error = Some ''Tool not available''\<rparr>"
    and "scan_call \<notin> set (task_calls (adapter_task config a))"
    and "task_findings (adapter_task config a) = []"
    by (simp_all add: adapter_task_def)
next
  assume "adapter_isAvailable a = Throws msg"
  then show "task_run (adapter_task config a) =
        \<lparr>tool_name = adapter_name a, tool_version = ''unknown'',
         tool_duration = elapsed a, exitCode = 1, tool_error = Some msg\<rparr>"
    and "scan_call \<notin> set (task_calls (adapter_task config a))"
    and "task_findings (adapter_task config a) = []"
    by (simp_all add: adapter_task_def)
next
  assume "a \<in> set adapters"
  then show "task_run (adapter_task config a) \<in> set (toolsRun (scan clock config adapters))"
    by (simp add: scan_toolsRun)
qed

theorem probe_outcomes_witness:
  "toolsRun (scan mockClock mockConfig [AbsentAdapter, BrokenProbeAdapter]) =
     [\<lparr>tool_name = ''absent-adapter'', tool_version = ''unknown'', tool_duration = 0,
       exitCode = - 1, tool_error = Some ''Tool not available''\<rparr>,
      \<lparr>tool_name = ''broken-probe-adapter'', tool_version = ''unknown'',
       tool_duration = 0.01, exitCode = 1, tool_error = Some ''spawn ENOENT''\<rparr>]
   \<and> scan_call \<notin> set (task_calls (adapter_task mockConfig AbsentAdapter))
   \<and> scan_call \<notin> set (task_calls (adapter_task mockConfig BrokenProbeAdapter))
   \<and> findings (scan mockClock mockConfig [AbsentAdapter, BrokenProbeAdapter]) = []"
proof -
  have absent: "adapter_isAvailable AbsentAdapter = Returns False"
    by (simp add: AbsentAdapter_def)
  have broken: "adapter_isAvailable BrokenProbeAdapter = Throws ''spawn ENOENT''"
    by (simp add: BrokenProbeAdapter_def)
  note a = probe_outcomes [of AbsentAdapter mockConfig "''x''"
      "[AbsentAdapter, BrokenProbeAdapter]" mockClock]
  note b = probe_outcomes [of BrokenProbeAdapter mockConfig "''spawn ENOENT''"
      "[AbsentAdapter, BrokenProbeAdapter]" mockClock]
  from a absent have a': "task_run (adapter_task mockConfig AbsentAdapter) =
        \<lparr>tool_name = adapter_name AbsentAdapter, tool_version = ''unknown'',
         tool_duration = 0, exitCode = - 1, tool_error = Some ''Tool not available''\<rparr>"
    and a'': "scan_call \<notin> set (task_calls (adapter_task mockConfig AbsentAdapter))"
    and a''': "task_findings (adapter_task mockConfig AbsentAdapter) = []"
    by blast+
  from b broken have b': "task_run (adapter_task mockConfig BrokenProbeAdapter) =
        \<lparr>tool_name = adapter_name BrokenProbeAdapter, tool_version = ''unknown'',
         tool_duration = elapsed BrokenProbeAdapter, exitCode = 1,
         tool_error = Some ''spawn ENOENT''\<rparr>"
    and b'': "scan_call \<notin> set (task_calls (adapter_task mockConfig BrokenProbeAdapter))"
    and b''': "task_findings (adapter_task mockConfig BrokenProbeAdapter) = []"
    by blast+
  have "deduplicateFindings [] = []"
    by (simp add: deduplicateFindings_def Map_values_def)
  then show ?thesis
    using a' a'' a''' b' b'' b'''
    by (simp add: scan_toolsRun scan_findings AbsentAdapter_def BrokenProbeAdapter_def)
qed

text \<open>
  When the probe of every producer answers no, the result has no finding, every
  counter of its statistics is zero, and \<open>toolsRun\<close> holds one record of an unavailable
  tool for each producer.
\<close>

theorem no_producer_available:
  assumes "\<forall>a \<in> set adapters. adapter_isAvailable a = Returns False"
  shows "findings (scan clock config adapters) = []
     \<and> stats (scan clock config adapters) =
         \<lparr>total = 0, bySeverity = bySeverity_init, byCategory = byCategory_init,
          bySource = bySource_init, suppressedCount = 0\<rparr>
     \<and> toolsRun (scan clock config adapters) =
         map (\<lambda>a. \<lparr>tool_name = adapter_name a, tool_version = ''unknown'',
                     tool_duration = 0, exitCode = - 1,
                     tool_error = Some ''Tool not available''\<rparr>) adapters"
proof -
  have task: "adapter_task config a =
      \<lparr>task_calls = [isAvailable_call], task_findings = [],
       task_run = \<lparr>tool_name = adapter_name a, tool_version = ''unknown'',
                   tool_duration = 0, exitCode = - 1,
                   tool_error = Some ''Tool not available''\<rparr>\<rparr>"
    if "a \<in> set adapters" for a
    using assms that by (simp add: adapter_task_def)
  have raw: "concat (map (\<lambda>a. task_findings (adapter_task config a)) adapters) = []"
    using task by simp
  have none: "findings (scan clock config adapters) = []"
    by (simp only: scan_findings raw) (simp add: deduplicateFindings_def Map_values_def)
  then have zero: "stats (scan clock config adapters) =
         \<lparr>total = 0, bySeverity = bySeverity_init, byCategory = byCategory_init,
          bySource = bySource_init, suppressedCount = 0\<rparr>"
    by (simp add: scan_stats calculateStats_def)
  have runs: "toolsRun (scan clock config adapters) =
         map (\<lambda>a. \<lparr>tool_name = adapter_name a, tool_version = ''unknown'',
                     tool_duration = 0, exitCode = - 1,
                     tool_error = Some ''Tool not available''\<rparr>) adapters"
    using task by (simp add: scan_toolsRun)
  from none zero runs show ?thesis by (intro conjI)
qed

theorem no_producer_available_witness:
  "findings (scan mockClock mockConfig [AbsentAdapter, AbsentAdapter]) = []
   \<and> total (stats (scan mockClock mockConfig [AbsentAdapter, AbsentAdapter])) = 0
   \<and> map exitCode (toolsRun (scan mockClock mockConfig [AbsentAdapter, AbsentAdapter])) =
       [- 1, - 1]"
proof -
  have "\<forall>a \<in> set [AbsentAdapter, AbsentAdapter]. adapter_isAvailable a = Returns False"
    by (simp add: AbsentAdapter_def)
  from no_producer_available [OF this, of mockClock mockConfig] show ?thesis
    by simp
qed

section \<open>Properties of the SARIF reporter\<close>

lemma rules_loop_map_of:
  "map_of (rules_loop fs m) k =
     (case map_of m k of Some v \<Rightarrow> Some v | None \<Rightarrow> find (\<lambda>f. ruleId f = k) fs)"
proof (induction fs arbitrary: m)
  case Nil
  show ?case by (simp split: option.split)
next
  case (Cons f fs)
  show ?case
    by (auto simp: Cons.IH Map_has_def Map_set_def update_conv' split: option.split)
qed

lemma rules_loop_distinct:
  "distinct (map fst m) \<Longrightarrow> distinct (map fst (rules_loop fs m))"
  by (induction fs arbitrary: m) (simp_all add: Map_set_def distinct_update)

lemma rules_loop_keys:
  "fst ` set (rules_loop fs m) = fst ` set m \<union> ruleId ` set fs"
proof (induction fs arbitrary: m)
  case Nil
  show ?case by simp
next
  case (Cons f fs)
  show ?case
    by (auto simp: Cons.IH Map_has_def Map_set_def dom_update map_of_eq_None_iff)
qed

text \<open>Every entry of the map is the first finding of its rule id.\<close>

lemma rules_loop_entry:
  assumes "(k, f) \<in> set (rules_loop fs [])"
  shows "find (\<lambda>g. ruleId g = k) fs = Some f"
proof -
  have "distinct (map fst (rules_loop fs []))"
    by (rule rules_loop_distinct) simp
  with assms have "map_of (rules_loop fs []) k = Some f"
    by simp
  then show ?thesis by (simp add: rules_loop_map_of)
qed

lemma rules_loop_entry_ruleId:
  assumes "(k, f) \<in> set (rules_loop fs [])"
  shows "ruleId f = k"
  using rules_loop_entry [OF assms] by (auto simp: find_Some_iff)

lemma extractRules_ids: "map sarif_id (extractRules L fs) = map fst (rules_loop fs [])"
proof -
  have "\<forall>e \<in> set (rules_loop fs []). sarif_id (rule_descriptor L (snd e)) = fst e"
    using rules_loop_entry_ruleId [of _ _ fs] by (auto simp: rule_descriptor_def)
  then show ?thesis
    by (simp add: extractRules_def Map_values_def)
qed

lemma extractRules_distinct: "distinct (map sarif_id (extractRules L fs))"
  by (simp add: extractRules_ids rules_loop_distinct)

lemma extractRules_id_set: "set (map sarif_id (extractRules L fs)) = ruleId ` set fs"
  by (simp add: extractRules_ids rules_loop_keys)

lemma extractRules_length: "length (extractRules L fs) = card (ruleId ` set fs)"
proof -
  have "length (extractRules L fs) = length (map sarif_id (extractRules L fs))"
    by simp
  also have "\<dots> = card (set (map sarif_id (extractRules L fs)))"
    by (rule distinct_card [symmetric]) (rule extractRules_distinct)
  finally show ?thesis by (simp only: extractRules_id_set)
qed

lemma extractRules_first:
  assumes "r \<in> set (extractRules L fs)"
  shows "\<exists>f. find (\<lambda>g. ruleId g = sarif_id r) fs = Some f \<and> r = rule_descriptor L f"
proof -
  from assms obtain k f where e: "(k, f) \<in> set (rules_loop fs [])"
    and r: "r = rule_descriptor L f"
    by (auto simp: extractRules_def Map_values_def)
  from e have "find (\<lambda>g. ruleId g = k) fs = Some f" by (rule rules_loop_entry)
  moreover from e have "ruleId f = k" by (rule rules_loop_entry_ruleId)
  ultimately show ?thesis using r by (auto simp: rule_descriptor_def)
qed

text \<open>
  Claim C7. For every result, \<open>SarifReporter.generate\<close> emits exactly one run. Its
  rules array holds exactly one descriptor for each rule id among the kept findings,
  so that the number of descriptors is the number of distinct rule ids; the title, the
  description and the help text of a descriptor are those of the first kept finding
  with that rule id. Its results array holds one entry for each kept finding, in
  order, so that the number of entries is the number of kept findings.
\<close>

theorem SarifReporter_generate_rules_and_results:
  "\<exists>run. runs (SarifReporter_generate L result) = [run]
     \<and> distinct (map sarif_id (driver_rules run))
     \<and> set (map sarif_id (driver_rules run)) = ruleId ` set (findings result)
     \<and> length (driver_rules run) = card (ruleId ` set (findings result))
     \<and> (\<forall>r \<in> set (driver_rules run).
          \<exists>f. find (\<lambda>g. ruleId g = sarif_id r) (findings result) = Some f
            \<and> shortDescription_text r = title f
            \<and> fullDescription_text r = description f
            \<and> help_text r = summary (remediation f))
     \<and> results run = map convertToSarifResult (findings result)
     \<and> length (results run) = length (findings result)"
proof -
  let ?run = "\<lparr>driver_name = ''Unified Security Scanner'',
               driver_version = version result,
               driver_informationUri =
                 ''https://github.com/yourusername/unified-security-scanner'',
               driver_rules = extractRules L (findings result),
               results = map convertToSarifResult (findings result)\<rparr>"
  have one: "runs (SarifReporter_generate L result) = [?run]"
    by (simp add: SarifReporter_generate_def Let_def)
  have first: "\<forall>r \<in> set (driver_rules ?run).
          \<exists>f. find (\<lambda>g. ruleId g = sarif_id r) (findings result) = Some f
            \<and> shortDescription_text r = title f
            \<and> fullDescription_text r = description f
            \<and> help_text r = summary (remediation f)"
  proof
    fix r assume "r \<in> set (driver_rules ?run)"
    then have "r \<in> set (extractRules L (findings result))" by simp
    from extractRules_first [OF this] obtain f
      where "find (\<lambda>g. ruleId g = sarif_id r) (findings result) = Some f"
        and "r = rule_descriptor L f" by blast
    then show "\<exists>f. find (\<lambda>g. ruleId g = sarif_id r) (findings result) = Some f
            \<and> shortDescription_text r = title f
            \<and> fullDescription_text r = description f
            \<and> help_text r = summary (remediation f)"
      by (auto simp: rule_descriptor_def)
  qed
  have "distinct (map sarif_id (driver_rules ?run))"
    by (simp add: extractRules_distinct)
  moreover have "set (map sarif_id (driver_rules ?run)) = ruleId ` set (findings result)"
    using extractRules_id_set [of L "findings result"] by simp
  moreover have "length (driver_rules ?run) = card (ruleId ` set (findings result))"
    by (simp add: extractRules_length)
  moreover have "results ?run = map convertToSarifResult (findings result)"
    and "length (results ?run) = length (findings result)"
    by simp_all
  ultimately show ?thesis using one first by blast
qed

theorem SarifReporter_generate_witness:
  "length (runs (SarifReporter_generate quiet_library mockResult)) = 1
   \<and> length (driver_rules (hd (runs (SarifReporter_generate quiet_library mockResult)))) = 2
   \<and> map shortDescription_text
        (driver_rules (hd (runs (SarifReporter_generate quiet_library mockResult)))) =
      [''Duplicate finding'', ''Other finding'']
   \<and> length (results (hd (runs (SarifReporter_generate quiet_library mockResult)))) = 3"
proof -
  from SarifReporter_generate_rules_and_results [of quiet_library mockResult]
  obtain run where one: "runs (SarifReporter_generate quiet_library mockResult) = [run]"
    and n: "length (driver_rules run) = card (ruleId ` set (findings mockResult))"
    and m: "length (results run) = length (findings mockResult)"
    by blast
  from one have "run = hd (runs (SarifReporter_generate quiet_library mockResult))"
    by simp
  then have rules: "driver_rules run = extractRules quiet_library (findings mockResult)"
    by (simp add: SarifReporter_generate_def Let_def)
  have "card (ruleId ` set (findings mockResult)) = 2"
    by (simp add: mockResult_def finding1_def finding2_def finding3_def)
  with n have "length (driver_rules run) = 2" by simp
  moreover have "map shortDescription_text (driver_rules run) =
      [''Duplicate finding'', ''Other finding'']"
    by (simp add: rules extractRules_def Map_values_def Map_has_def Map_set_def
        rule_descriptor_def mockResult_def finding1_def finding2_def finding3_def)
  moreover from m have "length (results run) = 3"
    by (simp add: mockResult_def)
  ultimately show ?thesis using one by simp
qed

text \<open>
  Claim C8. The mapping tables of the interchange-format serializer, \<open>SarifReporter\<close>.
  In the report of every result, the level of each entry of \<open>results\<close> is \<open>mapLevel\<close> of
  the severity of its finding, and the precision and the severity score of each rule
  descriptor are \<open>mapPrecision\<close> of the confidence and \<open>mapSecuritySeverity\<close> of the
  severity of the first finding of the rule. The tables are: level \<open>error\<close> for
  \<open>CRITICAL\<close> and \<open>HIGH\<close>, \<open>warning\<close> for \<open>MEDIUM\<close> and \<open>LOW\<close>, \<open>note\<close> for \<open>INFO\<close>;
  precision \<open>very-high\<close> from 0.9, \<open>high\<close> from 0.75, \<open>medium\<close> from 0.5, and \<open>low\<close>
  below; severity score 9.0, 7.0, 5.0, 3.0, 1.0 from \<open>CRITICAL\<close> down to \<open>INFO\<close>.
\<close>

theorem sarif_mapping_tables:
  "(\<forall>run \<in> set (runs (SarifReporter_generate L result)).
      map level (results run) = map (\<lambda>g. mapLevel (severity g)) (findings result)
      \<and> (\<forall>d \<in> set (driver_rules run).
           \<exists>g. find (\<lambda>h. ruleId h = sarif_id d) (findings result) = Some g
             \<and> precision d = mapPrecision (confidence g)
             \<and> security_severity d = mapSecuritySeverity (severity g)))
   \<and> level (convertToSarifResult f) = mapLevel (severity f)
   \<and> precision (rule_descriptor L f) = mapPrecision (confidence f)
   \<and> security_severity (rule_descriptor L f) = mapSecuritySeverity (severity f)
   \<and> mapLevel CRITICAL = ''error'' \<and> mapLevel HIGH = ''error''
   \<and> mapLevel MEDIUM = ''warning'' \<and> mapLevel LOW = ''warning'' \<and> mapLevel INFO = ''note''
   \<and> (0.9 \<le> c \<longrightarrow> mapPrecision c = ''very-high'')
   \<and> (0.75 \<le> c \<and> c < 0.9 \<longrightarrow> mapPrecision c = ''high'')
   \<and> (0.5 \<le> c \<and> c < 0.75 \<longrightarrow> mapPrecision c = ''medium'')
   \<and> (c < 0.5 \<longrightarrow> mapPrecision c = ''low'')
   \<and> mapSecuritySeverity CRITICAL = ''9.0'' \<and> mapSecuritySeverity HIGH = ''7.0''
   \<and> mapSecuritySeverity MEDIUM = ''5.0'' \<and> mapSecuritySeverity LOW = ''3.0''
   \<and> mapSecuritySeverity INFO = ''1.0''"
proof -
  have report: "\<forall>run \<in> set (runs (SarifReporter_generate L result)).
      map level (results run) = map (\<lambda>g. mapLevel (severity g)) (findings result)
      \<and> (\<forall>d \<in> set (driver_rules run).
           \<exists>g. find (\<lambda>h. ruleId h = sarif_id d) (findings result) = Some g
             \<and> precision d = mapPrecision (confidence g)
             \<and> security_severity d = mapSecuritySeverity (severity g))"
  proof
    fix run
    assume "run \<in> set (runs (SarifReporter_generate L result))"
    then have res: "results run = map convertToSarifResult (findings result)"
      and rules: "driver_rules run = extractRules L (findings result)"
      by (auto simp: SarifReporter_generate_def Let_def)
    have "map level (results run) = map (\<lambda>g. mapLevel (severity g)) (findings result)"
      by (simp add: res convertToSarifResult_def)
    moreover have "\<forall>d \<in> set (driver_rules run).
           \<exists>g. find (\<lambda>h. ruleId h = sarif_id d) (findings result) = Some g
             \<and> precision d = mapPrecision (confidence g)
             \<and> security_severity d = mapSecuritySeverity (severity g)"
    proof
      fix d
      assume "d \<in> set (driver_rules run)"
      then have "d \<in> set (extractRules L (findings result))" by (simp only: rules)
      from extractRules_first [OF this] obtain g
        where "find (\<lambda>h. ruleId h = sarif_id d) (findings result) = Some g"
          and "d = rule_descriptor L g"
        by blast
      then show "\<exists>g. find (\<lambda>h. ruleId h = sarif_id d) (findings result) = Some g
             \<and> precision d = mapPrecision (confidence g)
             \<and> security_severity d = mapSecuritySeverity (severity g)"
        by (auto simp: rule_descriptor_def)
    qed
    ultimately show "map level (results run) =
        map (\<lambda>g. mapLevel (severity g)) (findings result)
      \<and> (\<forall>d \<in> set (driver_rules run).
           \<exists>g. find (\<lambda>h. ruleId h = sarif_id d) (findings result) = Some g
             \<and> precision d = mapPrecision (confidence g)
             \<and> security_severity d = mapSecuritySeverity (severity g))"
      by (rule conjI)
  qed
  have reporter: "level (convertToSarifResult f) = mapLevel (severity f)"
    "precision (rule_descriptor L f) = mapPrecision (confidence f)"
    "security_severity (rule_descriptor L f) = mapSecuritySeverity (severity f)"
    by (simp_all add: convertToSarifResult_def rule_descriptor_def)
  have levels: "mapLevel CRITICAL = ''error''" "mapLevel HIGH = ''error''"
    "mapLevel MEDIUM = ''warning''" "mapLevel LOW = ''warning''" "mapLevel INFO = ''note''"
    by (simp_all add: mapLevel_def)
  have precisions: "0.9 \<le> c \<longrightarrow> mapPrecision c = ''very-high''"
    "0.75 \<le> c \<and> c < 0.9 \<longrightarrow> mapPrecision c = ''high''"
    "0.5 \<le> c \<and> c < 0.75 \<longrightarrow> mapPrecision c = ''medium''"
    "c < 0.5 \<longrightarrow> mapPrecision c = ''low''"
    by (simp_all add: mapPrecision_def)
  have table: "mapSecuritySeverity CRITICAL = ''9.0''" "mapSecuritySeverity HIGH = ''7.0''"
    "mapSecuritySeverity MEDIUM = ''5.0''" "mapSecuritySeverity LOW = ''3.0''"
    "mapSecuritySeverity INFO = ''1.0''"
    by (simp_all add: mapSecuritySeverity_def)
  from report reporter levels precisions table show ?thesis
    by (intro conjI)
qed

theorem sarif_mapping_tables_witness:
  "(\<exists>run. runs (SarifReporter_generate quiet_library mockResult) = [run]
      \<and> map level (results run) = [''error'', ''warning'', ''note''])
   \<and> level (convertToSarifResult finding2) = ''warning''
   \<and> precision (rule_descriptor quiet_library finding2) = ''very-high''
   \<and> security_severity (rule_descriptor quiet_library finding2) = ''3.0''
   \<and> mapPrecision 0.8 = ''high'' \<and> mapPrecision 0.6 = ''medium'' \<and> mapPrecision 0.2 = ''low''"
proof -
  have sev: "severity finding2 = LOW" and conf: "confidence finding2 = 0.95"
    by (simp_all add: finding2_def finding1_def)
  have levels: "map (\<lambda>g. mapLevel (severity g)) (findings mockResult) =
                  [''error'', ''warning'', ''note'']"
    by (simp add: mockResult_def finding1_def finding2_def finding3_def mapLevel_def)
  note t1 = sarif_mapping_tables [of quiet_library mockResult finding2 "0.95"]
  note t2 = sarif_mapping_tables [of quiet_library mockResult finding2 "0.8"]
  note t3 = sarif_mapping_tables [of quiet_library mockResult finding2 "0.6"]
  note t4 = sarif_mapping_tables [of quiet_library mockResult finding2 "0.2"]
  obtain run where run: "runs (SarifReporter_generate quiet_library mockResult) = [run]"
    by (simp add: SarifReporter_generate_def Let_def)
  then have "run \<in> set (runs (SarifReporter_generate quiet_library mockResult))"
    by simp
  with t1 have "map level (results run) =
                  map (\<lambda>g. mapLevel (severity g)) (findings mockResult)"
    by blast
  with run levels
  have "\<exists>run. runs (SarifReporter_generate quiet_library mockResult) = [run]
      \<and> map level (results run) = [''error'', ''warning'', ''note'']"
    by simp
  moreover from t1 have "level (convertToSarifResult finding2) = ''warning''"
    and "precision (rule_descriptor quiet_library finding2) = ''very-high''"
    and "security_severity (rule_descriptor quiet_library finding2) = ''3.0''"
    by (simp_all add: sev conf)
  moreover from t2 have "mapPrecision 0.8 = ''high''" by simp
  moreover from t3 have "mapPrecision 0.6 = ''medium''" by simp
  moreover from t4 have "mapPrecision 0.2 = ''low''" by simp
  ultimately show ?thesis by simp
qed

text \<open>
  The tables of \<open>SARIFProcessor.generateSARIF\<close>, the second SARIF writer of
  \<open>scanner.ts\<close>, which the scan command does not use. Its severity scores are those of
  \<open>SarifReporter\<close>; its levels are \<open>error\<close> for \<open>CRITICAL\<close> and \<open>HIGH\<close>, \<open>warning\<close> for
  \<open>MEDIUM\<close>, \<open>note\<close> for \<open>LOW\<close> and \<open>info\<close> for \<open>INFO\<close>; the precision of its rule
  descriptors is always \<open>high\<close>.
\<close>

theorem SARIFProcessor_tables:
  "mapSeverityToLevel (Severity_text CRITICAL) = ''error''
   \<and> mapSeverityToLevel (Severity_text HIGH) = ''error''
   \<and> mapSeverityToLevel (Severity_text MEDIUM) = ''warning''
   \<and> mapSeverityToLevel (Severity_text LOW) = ''note''
   \<and> mapSeverityToLevel (Severity_text INFO) = ''info''
   \<and> mapSeverityToSecuritySeverity (Severity_text sev) = mapSecuritySeverity sev
   \<and> processor_precision (processor_rule f) = ''high''
   \<and> processor_security_severity (processor_rule f) = mapSecuritySeverity (severity f)"
proof -
  have scores: "mapSeverityToSecuritySeverity (Severity_text s) = mapSecuritySeverity s" for s
    by (cases s)
      (simp_all add: mapSeverityToSecuritySeverity_def Severity_text_def
        mapSecuritySeverity_def)
  have processor: "mapSeverityToLevel (Severity_text CRITICAL) = ''error''"
    "mapSeverityToLevel (Severity_text HIGH) = ''error''"
    "mapSeverityToLevel (Severity_text MEDIUM) = ''warning''"
    "mapSeverityToLevel (Severity_text LOW) = ''note''"
    "mapSeverityToLevel (Severity_text INFO) = ''info''"
    by (simp_all add: mapSeverityToLevel_def Severity_text_def)
  have descriptor: "processor_precision (processor_rule f) = ''high''"
    "processor_security_severity (processor_rule f) = mapSecuritySeverity (severity f)"
    by (simp_all add: processor_rule_def scores)
  from processor descriptor scores [of sev] show ?thesis
    by (intro conjI)
qed

section \<open>Properties of the suppression engine\<close>

lemma custom_rules_returns:
  "\<forall>p \<in> set ps. (\<forall>path. \<exists>b. micromatch_isMatch L path [rule_file p] = Inr b)
                    \<and> (\<forall>s. RegExp_test L (rule_pattern p) s \<noteq> None) \<Longrightarrow>
     \<exists>r. custom_rules L ps f = Inr r"
proof (induction ps)
  case Nil
  show ?case by simp
next
  case (Cons p ps)
  from Cons.prems have "\<forall>path. \<exists>b. micromatch_isMatch L path [rule_file p] = Inr b"
    by simp
  then obtain m
    where m: "micromatch_isMatch L (finding_file f) [rule_file p] = Inr m"
    by blast
  from Cons.prems have "RegExp_test L (rule_pattern p) (snippet f) \<noteq> None"
    by simp
  then obtain b where b: "RegExp_test L (rule_pattern p) (snippet f) = Some b"
    by blast
  from Cons obtain r where r: "custom_rules L ps f = Inr r" by auto
  show ?case by (cases m; cases b) (simp_all add: m b r)
qed

lemma context_stages_cases:
  "context_stages L f = keep \<or> (\<exists>r. context_stages L f = suppress_because r)"
  by (auto simp: context_stages_def Let_def)

lemma shouldSuppress_cases:
  assumes "shouldSuppress L eng f = Inr v"
  shows "v = keep \<or> (\<exists>r. v = suppress_because r)"
  using assms context_stages_cases [of L f]
  by (auto simp: shouldSuppress_def split: if_splits sum.splits option.splits)

lemma shouldSuppress_returns:
  assumes "\<forall>path. \<exists>b. matchesExclusionPattern L eng path = Inr b"
    and "\<forall>p \<in> set (customPatterns eng).
           (\<forall>path. \<exists>b. micromatch_isMatch L path [rule_file p] = Inr b)
           \<and> (\<forall>s. RegExp_test L (rule_pattern p) s \<noteq> None)"
  shows "\<exists>v. shouldSuppress L eng f = Inr v"
proof -
  from assms(1) obtain x where x: "matchesExclusionPattern L eng (finding_file f) = Inr x"
    by blast
  from custom_rules_returns [OF assms(2), of f]
  obtain r where r: "custom_rules L (customPatterns eng) f = Inr r" by blast
  show ?thesis by (simp add: shouldSuppress_def x r split: option.splits)
qed

lemma custom_rules_suppressedBy:
  "custom_rules L ps (f\<lparr>suppressedBy := x\<rparr>) = custom_rules L ps f"
  by (induction ps) (auto split: sum.splits option.splits bool.splits)

lemma public_key_loop_suppressedBy:
  "public_key_loop L (f\<lparr>suppressedBy := x\<rparr>) c ps = public_key_loop L f c ps"
proof (induction ps)
  case Nil
  show ?case by simp
next
  case (Cons a ps)
  obtain pat readOnly where a: "a = (pat, readOnly)" by (cases a)
  show ?case by (simp add: a Cons.IH Let_def cong: if_cong)
qed

lemma heuristics_suppressedBy:
  "getContext L (f\<lparr>suppressedBy := x\<rparr>) = getContext L f"
  "isCliPathTraversal L (f\<lparr>suppressedBy := x\<rparr>) = isCliPathTraversal L f"
  "isDocumentationFalsePositive L (f\<lparr>suppressedBy := x\<rparr>) = isDocumentationFalsePositive L f"
  "isScannerRuleFalsePositive L (f\<lparr>suppressedBy := x\<rparr>) = isScannerRuleFalsePositive L f"
  "isPackageManagerHash L (f\<lparr>suppressedBy := x\<rparr>) = isPackageManagerHash L f"
  "isLegitimatePublicApiKey L (f\<lparr>suppressedBy := x\<rparr>) c = isLegitimatePublicApiKey L f c"
  by (simp_all add: getContext_def isCliPathTraversal_def
      isDocumentationFalsePositive_def isScannerRuleFalsePositive_def
      isPackageManagerHash_def isLegitimatePublicApiKey_def public_key_loop_suppressedBy
      cong: option.case_cong)

lemma context_stages_suppressedBy:
  "context_stages L (f\<lparr>suppressedBy := x\<rparr>) = context_stages L f"
  by (simp add: context_stages_def heuristics_suppressedBy cong: option.case_cong if_cong)

lemma shouldSuppress_suppressedBy:
  "shouldSuppress L eng (f\<lparr>suppressedBy := x\<rparr>) = shouldSuppress L eng f"
  by (simp add: shouldSuppress_def matchesExclusionPattern_def custom_rules_suppressedBy
      context_stages_suppressedBy cong: sum.case_cong option.case_cong if_cong)

lemma filter_loop_result:
  assumes "filter_loop L eng fs (k0, s0) = Inr (kept, supp)"
  shows "kept = k0 @ filter (\<lambda>f. shouldSuppress L eng f = Inr keep) fs
     \<and> (\<exists>s1. supp = s0 @ s1 \<and>
          list_all2 (\<lambda>f s. \<exists>r. shouldSuppress L eng f = Inr (suppress_because r)
                            \<and> s = f\<lparr>suppressedBy := Some r\<rparr>)
            (filter (\<lambda>f. shouldSuppress L eng f \<noteq> Inr keep) fs) s1)"
  using assms
proof (induction fs arbitrary: k0 s0)
  case Nil
  then show ?case by simp
next
  case (Cons f fs)
  from Cons.prems obtain v where v: "shouldSuppress L eng f = Inr v"
    by (cases "shouldSuppress L eng f") auto
  from shouldSuppress_cases [OF v] show ?case
  proof
    assume k: "v = keep"
    with v Cons.prems have "filter_loop L eng fs (k0 @ [f], s0) = Inr (kept, supp)"
      by (simp add: keep_def)
    from Cons.IH [OF this] show ?case using v k by simp
  next
    assume "\<exists>r. v = suppress_because r"
    then obtain r where r: "v = suppress_because r" ..
    have ne: "suppress_because r \<noteq> keep" by (simp add: suppress_because_def keep_def)
    from v r Cons.prems
    have "filter_loop L eng fs (k0, s0 @ [f\<lparr>suppressedBy := Some r\<rparr>]) = Inr (kept, supp)"
      by (simp add: suppress_because_def)
    from Cons.IH [OF this] obtain s1 where
      k: "kept = k0 @ filter (\<lambda>f. shouldSuppress L eng f = Inr keep) fs"
      and s: "supp = (s0 @ [f\<lparr>suppressedBy := Some r\<rparr>]) @ s1"
      and l: "list_all2 (\<lambda>f s. \<exists>r. shouldSuppress L eng f = Inr (suppress_because r)
                            \<and> s = f\<lparr>suppressedBy := Some r\<rparr>)
            (filter (\<lambda>f. shouldSuppress L eng f \<noteq> Inr keep) fs) s1"
      by blast
    show ?case using v r ne k s l by auto
  qed
qed

lemma filter_loop_returns:
  assumes "\<forall>path. \<exists>b. matchesExclusionPattern L eng path = Inr b"
    and "\<forall>p \<in> set (customPatterns eng).
           (\<forall>path. \<exists>b. micromatch_isMatch L path [rule_file p] = Inr b)
           \<and> (\<forall>s. RegExp_test L (rule_pattern p) s \<noteq> None)"
  shows "\<exists>r. filter_loop L eng fs acc = Inr r"
proof (induction fs arbitrary: acc)
  case Nil
  show ?case by (cases acc) simp
next
  case (Cons f fs)
  obtain v where "shouldSuppress L eng f = Inr v"
    using shouldSuppress_returns [OF assms, of f] by blast
  then show ?case using Cons.IH by (cases acc) auto
qed


lemma list_all2_map_eq:
  assumes "list_all2 R xs ys" and "\<And>x y. R x y \<Longrightarrow> g y = g x"
  shows "map g ys = map g xs"
  using assms by (induction rule: list_all2_induct) simp_all

lemma filterFindings_result:
  assumes "\<forall>path. \<exists>b. matchesExclusionPattern L eng path = Inr b"
    and "\<forall>p \<in> set (customPatterns eng).
           (\<forall>path. \<exists>b. micromatch_isMatch L path [rule_file p] = Inr b)
           \<and> (\<forall>s. RegExp_test L (rule_pattern p) s \<noteq> None)"
  shows "\<exists>kept supp. filterFindings L eng fs = Inr (kept, supp)
     \<and> kept = filter (\<lambda>f. shouldSuppress L eng f = Inr keep) fs
     \<and> list_all2 (\<lambda>f s. \<exists>r. shouldSuppress L eng f = Inr (suppress_because r)
                            \<and> s = f\<lparr>suppressedBy := Some r\<rparr>)
            (filter (\<lambda>f. shouldSuppress L eng f \<noteq> Inr keep) fs) supp"
proof -
  from filter_loop_returns [OF assms, of fs "([], [])"]
  obtain kept supp where r: "filter_loop L eng fs ([], []) = Inr (kept, supp)"
    by (metis surj_pair)
  from filter_loop_result [OF r] show ?thesis
    using r by (auto simp: filterFindings_def)
qed

lemma custom_rules_reason:
  "custom_rules L ps f = Inr (Some r) \<Longrightarrow> r \<in> rule_reason ` set ps"
  by (induction ps) (auto split: sum.splits if_splits option.splits bool.splits)

lemma suppress_because_inject: "suppress_because r = suppress_because r' \<Longrightarrow> r = r'"
  by (simp add: suppress_because_def)

lemma context_stages_reason:
  assumes "context_stages L f = suppress_because r"
  shows "r \<in> built_in_reasons"
  using assms
  by (auto simp: context_stages_def Let_def suppress_because_def keep_def
      built_in_reasons_def split: if_splits)

lemma shouldSuppress_reason:
  assumes "shouldSuppress L eng f = Inr (suppress_because r)"
  shows "r \<in> built_in_reasons \<union> rule_reason ` set (customPatterns eng)"
proof (cases "matchesExclusionPattern L eng (finding_file f) = Inr True")
  case True
  with assms show ?thesis
    by (simp add: shouldSuppress_def suppress_because_def built_in_reasons_def)
next
  case False
  with assms have nomatch: "matchesExclusionPattern L eng (finding_file f) = Inr False"
    by (cases "matchesExclusionPattern L eng (finding_file f)")
      (auto simp: shouldSuppress_def)
  show ?thesis
  proof (cases "custom_rules L (customPatterns eng) f")
    case (Inl e)
    with assms nomatch show ?thesis by (simp add: shouldSuppress_def)
  next
    case (Inr c)
    show ?thesis
    proof (cases c)
      case (Some r')
      with assms nomatch Inr have "r = r'"
        by (simp add: shouldSuppress_def suppress_because_def)
      with Some Inr custom_rules_reason [of L "customPatterns eng" f r] show ?thesis
        by simp
    next
      case None
      show ?thesis
      proof (cases "hasTestPrefix (snippet f)")
        case True
        with assms nomatch Inr None show ?thesis
          by (simp add: shouldSuppress_def suppress_because_def built_in_reasons_def)
      next
        case False
        with assms nomatch Inr None have "context_stages L f = suppress_because r"
          by (simp add: shouldSuppress_def)
        from context_stages_reason [OF this] show ?thesis by blast
      qed
    qed
  qed
qed

lemma custom_rules_empty_glob:
  "rule_file p = [] \<Longrightarrow>
     custom_rules L (p # ps) f = Inl (TypeError ''Expected pattern to be a non-empty string'')"
  by (simp add: micromatch_isMatch_def)

lemma ruleEngine_globs:
  "\<forall>path. \<exists>b. matchesExclusionPattern quiet_library ruleEngine path = Inr b"
  by (auto simp: matchesExclusionPattern_def micromatch_isMatch_def ruleEngine_def
      FalsePositiveRuleEngine_def mockConfig_def quiet_library_def)

lemma ruleEngine_rules:
  "\<forall>p \<in> set (customPatterns ruleEngine).
     (\<forall>path. \<exists>b. micromatch_isMatch quiet_library path [rule_file p] = Inr b)
     \<and> (\<forall>s. RegExp_test quiet_library (rule_pattern p) s \<noteq> None)"
  by (auto simp: ruleEngine_def FalsePositiveRuleEngine_def quiet_library_def
      micromatch_isMatch_def python_rule_def)

lemma shouldSuppress_finding1:
  "shouldSuppress quiet_library ruleEngine finding1 = Inr keep"
  by (simp add: shouldSuppress_def matchesExclusionPattern_def micromatch_isMatch_def
      ruleEngine_def FalsePositiveRuleEngine_def mockConfig_def quiet_library_def finding1_def
      hasTestPrefix_def TEST_PREFIXES_def context_stages_def getContext_def
      isCliPathTraversal_def isDocumentationFalsePositive_def isScannerRuleFalsePositive_def
      isPackageManagerHash_def isLegitimatePublicApiKey_def python_rule_def)

lemma shouldSuppress_ruleEngine_mock_key:
  "shouldSuppress quiet_library ruleEngine mock_key_finding =
     Inr (suppress_because ''Variable has test/mock prefix (MOCK_, TEST_, etc.)'')"
  by (simp add: shouldSuppress_def matchesExclusionPattern_def micromatch_isMatch_def
      ruleEngine_def FalsePositiveRuleEngine_def mockConfig_def quiet_library_def
      mock_key_finding_def finding1_def hasTestPrefix_mock_key python_rule_def)

text \<open>
  Claim C3. Let the configuration of the engine be well formed: \<open>micromatch.isMatch\<close>
  throws on no file for the exclusion patterns of the engine, nor for the glob of a
  custom rule (so that no glob is the empty string), and the pattern of every custom
  rule is a regular expression. Without this, \<open>filterFindings\<close> throws and returns no
  lists. Then, for every input list, it returns a kept list and a
  suppressed list that partition the input: the two lengths add up to the length of
  the input; the kept findings are input findings; kept and suppressed findings
  together are the input findings, each as often as in the input, once the
  suppression annotation is put aside; no finding is in both lists; every input
  finding is either in the kept list or, with a reason, in the suppressed list, and
  not both; every suppressed entry carries a reason; and when the identity keys of
  the input are unique, so are those of the two lists together.
\<close>

theorem filterFindings_partition:
  assumes "\<forall>path. \<exists>b. matchesExclusionPattern L eng path = Inr b"
    and "\<forall>p \<in> set (customPatterns eng).
           (\<forall>path. \<exists>b. micromatch_isMatch L path [rule_file p] = Inr b)
           \<and> (\<forall>s. RegExp_test L (rule_pattern p) s \<noteq> None)"
  shows "\<exists>kept supp. filterFindings L eng fs = Inr (kept, supp)
     \<and> length kept + length supp = length fs
     \<and> set kept \<subseteq> set fs
     \<and> mset (map (\<lambda>f. f\<lparr>suppressedBy := None\<rparr>) (kept @ supp)) =
         mset (map (\<lambda>f. f\<lparr>suppressedBy := None\<rparr>) fs)
     \<and> set kept \<inter> set supp = {}
     \<and> (\<forall>f \<in> set fs. (f \<in> set kept) \<noteq> (\<exists>r. f\<lparr>suppressedBy := Some r\<rparr> \<in> set supp))
     \<and> (\<forall>s \<in> set supp. suppressedBy s \<noteq> None)
     \<and> (distinct (map dedup_key fs) \<longrightarrow> distinct (map dedup_key (kept @ supp)))"
proof -
  let ?P = "\<lambda>f. shouldSuppress L eng f = Inr keep"
  let ?R = "\<lambda>f s. \<exists>r. shouldSuppress L eng f = Inr (suppress_because r)
                            \<and> s = f\<lparr>suppressedBy := Some r\<rparr>"
  let ?clear = "\<lambda>f. f\<lparr>suppressedBy := None\<rparr>"
  from filterFindings_result [OF assms, of fs] obtain kept supp
    where res: "filterFindings L eng fs = Inr (kept, supp)"
      and kept: "kept = filter ?P fs"
      and supp: "list_all2 ?R (filter (\<lambda>f. \<not> ?P f) fs) supp"
    by blast
  have ne: "suppress_because r \<noteq> keep" "keep \<noteq> suppress_because r" for r
    by (simp_all add: suppress_because_def keep_def)
  have len: "length kept + length supp = length fs"
    using list_all2_lengthD [OF supp] sum_length_filter_compl [of ?P fs] by (simp add: kept)
  have sub: "set kept \<subseteq> set fs" by (auto simp: kept)
  have cl: "map ?clear supp = map ?clear (filter (\<lambda>f. \<not> ?P f) fs)"
    by (rule list_all2_map_eq [OF supp]) auto
  have "mset (map ?clear (kept @ supp)) =
          image_mset ?clear (filter_mset ?P (mset fs))
          + image_mset ?clear (filter_mset (\<lambda>f. \<not> ?P f) (mset fs))"
    by (simp add: kept cl)
  also have "\<dots> = image_mset ?clear (mset fs)"
    by (simp flip: image_mset_union)
  finally have un: "mset (map ?clear (kept @ supp)) = mset (map ?clear fs)"
    by simp
  have supp_elem: "\<exists>f \<in> set fs. \<exists>r. shouldSuppress L eng f = Inr (suppress_because r)
                      \<and> s = f\<lparr>suppressedBy := Some r\<rparr>" if "s \<in> set supp" for s
  proof -
    from that obtain i where i: "i < length supp" and s: "s = supp ! i"
      by (auto simp: in_set_conv_nth)
    let ?xs = "filter (\<lambda>f. \<not> ?P f) fs"
    from supp i have "i < length ?xs" and "?R (?xs ! i) (supp ! i)"
      by (auto simp: list_all2_conv_all_nth)
    moreover from \<open>i < length ?xs\<close> have "?xs ! i \<in> set fs"
      using nth_mem [of i ?xs] by auto
    ultimately show ?thesis using s by blast
  qed
  have supp_verdict: "\<exists>r. shouldSuppress L eng s = Inr (suppress_because r)"
    if "s \<in> set supp" for s
    using supp_elem [OF that] by (auto simp: shouldSuppress_suppressedBy)
  have disj: "set kept \<inter> set supp = {}"
  proof -
    have False if "g \<in> set kept" and "g \<in> set supp" for g
      using supp_verdict [OF that(2)] that(1) ne by (auto simp: kept)
    then show ?thesis by blast
  qed
  have once: "(f \<in> set kept) \<noteq> (\<exists>r. f\<lparr>suppressedBy := Some r\<rparr> \<in> set supp)"
    if f: "f \<in> set fs" for f
  proof (cases "?P f")
    case True
    have "f\<lparr>suppressedBy := Some r\<rparr> \<notin> set supp" for r
    proof
      assume "f\<lparr>suppressedBy := Some r\<rparr> \<in> set supp"
      from supp_verdict [OF this] True ne show False
        by (auto simp: shouldSuppress_suppressedBy)
    qed
    with True f show ?thesis by (simp add: kept)
  next
    case False
    with f have "f \<in> set (filter (\<lambda>f. \<not> ?P f) fs)" by simp
    then obtain i where i: "i < length (filter (\<lambda>f. \<not> ?P f) fs)"
      and fi: "f = filter (\<lambda>f. \<not> ?P f) fs ! i"
      by (metis in_set_conv_nth)
    from supp i have "i < length supp" and "?R (filter (\<lambda>f. \<not> ?P f) fs ! i) (supp ! i)"
      by (auto simp: list_all2_conv_all_nth)
    then obtain r where "supp ! i = f\<lparr>suppressedBy := Some r\<rparr>" using fi by auto
    with \<open>i < length supp\<close> have "f\<lparr>suppressedBy := Some r\<rparr> \<in> set supp"
      by (metis nth_mem)
    with False show ?thesis by (auto simp: kept)
  qed
  have reasons: "suppressedBy s \<noteq> None" if "s \<in> set supp" for s
    using supp_elem [OF that] by auto
  have key: "dedup_key (?clear f) = dedup_key f" for f
    by (simp add: dedup_key_def)
  have "mset (map dedup_key (kept @ supp)) = mset (map dedup_key (map ?clear (kept @ supp)))"
    by (simp only: map_map comp_def key)
  also have "\<dots> = image_mset dedup_key (mset (map ?clear (kept @ supp)))"
    by (simp only: mset_map)
  also have "\<dots> = image_mset dedup_key (mset (map ?clear fs))"
    by (simp only: un)
  also have "\<dots> = mset (map dedup_key (map ?clear fs))"
    by (simp only: mset_map)
  also have "\<dots> = mset (map dedup_key fs)"
    by (simp only: map_map comp_def key)
  finally have "mset (map dedup_key (kept @ supp)) = mset (map dedup_key fs)" .
  then have dist: "distinct (map dedup_key fs) \<longrightarrow> distinct (map dedup_key (kept @ supp))"
    by (metis mset_eq_imp_distinct_iff)
  from res len sub un disj once reasons dist show ?thesis by blast
qed

theorem filterFindings_partition_witness:
  "filterFindings quiet_library ruleEngine [finding1, mock_key_finding] =
     Inr ([finding1],
          [mock_key_finding
             \<lparr>suppressedBy := Some ''Variable has test/mock prefix (MOCK_, TEST_, etc.)''\<rparr>])
   \<and> (\<exists>kept supp. filterFindings quiet_library ruleEngine [finding1, mock_key_finding] =
          Inr (kept, supp)
        \<and> length kept + length supp = 2 \<and> set kept \<inter> set supp = {})"
proof -
  from filterFindings_partition [OF ruleEngine_globs ruleEngine_rules, of "[finding1, mock_key_finding]"]
  obtain kept supp
    where res: "filterFindings quiet_library ruleEngine [finding1, mock_key_finding] =
                  Inr (kept, supp)"
      and len: "length kept + length supp = length [finding1, mock_key_finding]"
      and disj: "set kept \<inter> set supp = {}"
    by blast
  have "filterFindings quiet_library ruleEngine [finding1, mock_key_finding] =
     Inr ([finding1],
          [mock_key_finding
             \<lparr>suppressedBy := Some ''Variable has test/mock prefix (MOCK_, TEST_, etc.)''\<rparr>])"
    by (simp add: filterFindings_def shouldSuppress_finding1
        shouldSuppress_ruleEngine_mock_key keep_def suppress_because_def)
  moreover from res len disj
  have "\<exists>kept supp. filterFindings quiet_library ruleEngine [finding1, mock_key_finding] =
          Inr (kept, supp)
        \<and> length kept + length supp = 2 \<and> set kept \<inter> set supp = {}"
    by auto
  ultimately show ?thesis by blast
qed

text \<open>
  Claim C10. Let the configuration of the engine be well formed: \<open>micromatch.isMatch\<close>
  throws on no file for the exclusion patterns of the engine, nor for the glob of a
  custom rule (so that no glob is the empty string), and the pattern of every custom
  rule is a regular expression. Then
  \<open>filterFindings\<close> returns; the kept list is the list of the input findings that no
  stage suppresses, each unchanged and in the order of the input; and the suppressed
  list holds, in the order of the input, one entry for each input finding that a stage
  suppresses, equal to that finding in every field but \<open>suppressedBy\<close>, which is the
  reason that \<open>shouldSuppress\<close> returns for it: the reason of a built-in stage, or the
  reason of a custom rule.
\<close>

theorem filterFindings_frame:
  assumes "\<forall>path. \<exists>b. matchesExclusionPattern L eng path = Inr b"
    and "\<forall>p \<in> set (customPatterns eng).
           (\<forall>path. \<exists>b. micromatch_isMatch L path [rule_file p] = Inr b)
           \<and> (\<forall>s. RegExp_test L (rule_pattern p) s \<noteq> None)"
  shows "\<exists>kept supp. filterFindings L eng fs = Inr (kept, supp)
     \<and> kept = filter (\<lambda>f. shouldSuppress L eng f = Inr keep) fs
     \<and> list_all2
         (\<lambda>f s. \<exists>r. shouldSuppress L eng f = Inr (suppress_because r)
                  \<and> s = f\<lparr>suppressedBy := Some r\<rparr>
                  \<and> r \<in> built_in_reasons \<union> rule_reason ` set (customPatterns eng))
         (filter (\<lambda>f. shouldSuppress L eng f \<noteq> Inr keep) fs) supp"
proof -
  from filterFindings_result [OF assms, of fs] obtain kept supp
    where res: "filterFindings L eng fs = Inr (kept, supp)"
      and kept: "kept = filter (\<lambda>f. shouldSuppress L eng f = Inr keep) fs"
      and supp: "list_all2 (\<lambda>f s. \<exists>r. shouldSuppress L eng f = Inr (suppress_because r)
                            \<and> s = f\<lparr>suppressedBy := Some r\<rparr>)
            (filter (\<lambda>f. shouldSuppress L eng f \<noteq> Inr keep) fs) supp"
    by blast
  from supp have "list_all2
         (\<lambda>f s. \<exists>r. shouldSuppress L eng f = Inr (suppress_because r)
                  \<and> s = f\<lparr>suppressedBy := Some r\<rparr>
                  \<and> r \<in> built_in_reasons \<union> rule_reason ` set (customPatterns eng))
         (filter (\<lambda>f. shouldSuppress L eng f \<noteq> Inr keep) fs) supp"
  proof (rule list_all2_mono)
    fix f s
    assume "\<exists>r. shouldSuppress L eng f = Inr (suppress_because r)
               \<and> s = f\<lparr>suppressedBy := Some r\<rparr>"
    then obtain r where v: "shouldSuppress L eng f = Inr (suppress_because r)"
      and s: "s = f\<lparr>suppressedBy := Some r\<rparr>" by blast
    from shouldSuppress_reason [OF v] v s
    show "\<exists>r. shouldSuppress L eng f = Inr (suppress_because r)
                  \<and> s = f\<lparr>suppressedBy := Some r\<rparr>
                  \<and> r \<in> built_in_reasons \<union> rule_reason ` set (customPatterns eng)"
      by blast
  qed
  with res kept show ?thesis by blast
qed

theorem filterFindings_frame_witness:
  "\<exists>supp. filterFindings quiet_library ruleEngine [finding1, mock_key_finding] =
            Inr ([finding1], supp)
     \<and> supp = [mock_key_finding
                 \<lparr>suppressedBy := Some ''Variable has test/mock prefix (MOCK_, TEST_, etc.)''\<rparr>]"
proof -
  let ?fs = "[finding1, mock_key_finding]"
  from filterFindings_frame [OF ruleEngine_globs ruleEngine_rules, of ?fs]
  obtain kept supp
    where res: "filterFindings quiet_library ruleEngine ?fs = Inr (kept, supp)"
      and kept: "kept = filter (\<lambda>f. shouldSuppress quiet_library ruleEngine f = Inr keep) ?fs"
      and supp: "list_all2
         (\<lambda>f s. \<exists>r. shouldSuppress quiet_library ruleEngine f = Inr (suppress_because r)
                  \<and> s = f\<lparr>suppressedBy := Some r\<rparr>
                  \<and> r \<in> built_in_reasons \<union> rule_reason ` set (customPatterns ruleEngine))
         (filter (\<lambda>f. shouldSuppress quiet_library ruleEngine f \<noteq> Inr keep) ?fs) supp"
    by blast
  have ne: "suppress_because r \<noteq> keep" for r
    by (simp add: suppress_because_def keep_def)
  from kept have k: "kept = [finding1]"
    by (simp add: shouldSuppress_finding1 shouldSuppress_ruleEngine_mock_key ne)
  from supp have "list_all2
         (\<lambda>f s. \<exists>r. shouldSuppress quiet_library ruleEngine f = Inr (suppress_because r)
                  \<and> s = f\<lparr>suppressedBy := Some r\<rparr>) [mock_key_finding] supp"
    by (auto simp: shouldSuppress_finding1 shouldSuppress_ruleEngine_mock_key ne
        elim!: list_all2_mono)
  then have "supp = [mock_key_finding
                 \<lparr>suppressedBy := Some ''Variable has test/mock prefix (MOCK_, TEST_, etc.)''\<rparr>]"
    by (auto simp: list_all2_Cons1 shouldSuppress_ruleEngine_mock_key suppress_because_def)
  with res k show ?thesis by simp
qed

text \<open>
  A custom rule whose glob is the empty string. For the first finding that the
  exclusion patterns let through, \<open>micromatch.isMatch\<close> throws on the glob of the rule,
  and \<open>filterFindings\<close> throws with it and returns no lists, whatever the pattern of
  the rule is.
\<close>

theorem filterFindings_empty_glob:
  assumes "matchesExclusionPattern L eng (finding_file f) = Inr False"
    and "customPatterns eng = p # ps"
    and "rule_file p = []"
  shows "filterFindings L eng (f # fs) =
           Inl (TypeError ''Expected pattern to be a non-empty string'')"
proof -
  have "custom_rules L (customPatterns eng) f =
          Inl (TypeError ''Expected pattern to be a non-empty string'')"
    by (simp only: assms(2) custom_rules_empty_glob [OF assms(3)])
  then have "shouldSuppress L eng f =
          Inl (TypeError ''Expected pattern to be a non-empty string'')"
    by (simp add: shouldSuppress_def assms(1))
  then show ?thesis by (simp add: filterFindings_def)
qed

theorem filterFindings_empty_glob_witness:
  "filterFindings quiet_library emptyGlobEngine [finding1] =
     Inl (TypeError ''Expected pattern to be a non-empty string'')"
  using filterFindings_empty_glob
    [of quiet_library emptyGlobEngine finding1 "python_rule\<lparr>rule_file := []\<rparr>" "[]" "[]"]
  by (simp add: emptyGlobEngine_def FalsePositiveRuleEngine_def matchesExclusionPattern_def
      micromatch_isMatch_def mockConfig_def quiet_library_def)

section \<open>The inline directive and the context window\<close>

lemma split_app_text: "split app_text newline = app_lines"
  by (simp add: app_text_def app_lines_def newline_def)

lemma getContext_finding_line8: "getContext app_library finding_line8 = Some window8"
  by (simp add: getContext_def app_library_def quiet_library_def finding_line8_def
      finding1_def split_app_text Let_def slice_def app_lines_def window8_def)

lemma getContext_finding_line7: "getContext app_library finding_line7 = Some window7"
  by (simp add: getContext_def app_library_def quiet_library_def finding_line7_def
      finding1_def split_app_text Let_def slice_def app_lines_def window7_def)

lemma hasNoSecComment_window8: "\<not> hasNoSecComment window8 8"
  by (simp add: hasNoSecComment_def newline_def Let_def at_index_def line_includes_def
      window8_def)

lemma hasNoSecComment_window7: "hasNoSecComment window7 7"
  by (simp add: hasNoSecComment_def newline_def Let_def at_index_def line_includes_def
      window7_def)

lemma window_not_empty: "window8 \<noteq> []" "window7 \<noteq> []"
  by (simp_all add: window8_def window7_def)

lemma app_library_quiet:
  "isMatch app_library path globs = Inr False"
  "literal_test app_library r s = False"
  by (simp_all add: app_library_def quiet_library_def)

lemma shouldSuppress_finding_line8:
  "shouldSuppress app_library (FalsePositiveRuleEngine mockConfig) finding_line8 = Inr keep"
proof -
  have "\<not> hasTestPrefix (snippet finding_line8)"
    by (simp add: hasTestPrefix_def TEST_PREFIXES_def finding_line8_def)
  moreover have "line finding_line8 = 8"
    by (simp add: finding_line8_def)
  moreover have "\<not> str_includes (ruleId finding_line8) ''path-traversal''"
    by (simp add: finding_line8_def finding1_def)
  ultimately show ?thesis
    by (simp add: shouldSuppress_def matchesExclusionPattern_def micromatch_isMatch_def
        FalsePositiveRuleEngine_def
        mockConfig_def context_stages_def getContext_finding_line8 hasNoSecComment_window8
        window_not_empty isTestContext_def isCliPathTraversal_def
        isDocumentationFalsePositive_def isScannerRuleFalsePositive_def
        isPackageManagerHash_def isLegitimatePublicApiKey_def publicKeyPatterns_def
        app_library_quiet)
qed

lemma shouldSuppress_finding_line7:
  "shouldSuppress app_library (FalsePositiveRuleEngine mockConfig) finding_line7 =
     Inr (suppress_because ''Suppressed by nosec comment'')"
proof -
  have "\<not> hasTestPrefix (snippet finding_line7)"
    by (simp add: hasTestPrefix_def TEST_PREFIXES_def finding_line7_def)
  moreover have "line finding_line7 = 7"
    by (simp add: finding_line7_def)
  ultimately show ?thesis
    by (simp add: shouldSuppress_def matchesExclusionPattern_def micromatch_isMatch_def
        FalsePositiveRuleEngine_def
        mockConfig_def context_stages_def getContext_finding_line7 hasNoSecComment_window7
        window_not_empty isTestContext_def app_library_quiet)
qed

lemma split_not_empty: "split s c \<noteq> []"
  by (induction s) (auto split: list.split)

lemma split_no_separator: "w \<in> set (split s c) \<Longrightarrow> c \<notin> set w"
proof (induction s arbitrary: w)
  case Nil
  then show ?case by simp
next
  case (Cons x s)
  show ?case
  proof (cases "x = c")
    case True
    with Cons show ?thesis by auto
  next
    case False
    obtain v vs where sp: "split s c = v # vs"
      using split_not_empty [of s c] by (cases "split s c") auto
    with Cons.prems False have "w = x # v \<or> w \<in> set vs" by simp
    moreover from sp Cons.IH have "c \<notin> set v" and "\<forall>u \<in> set vs. c \<notin> set u" by simp_all
    ultimately show ?thesis using False by auto
  qed
qed

lemma split_single: "c \<notin> set w \<Longrightarrow> split w c = [w]"
  by (induction w) auto

lemma split_append_separator:
  "c \<notin> set w \<Longrightarrow> split (w @ c # rest) c = w # split rest c"
  by (induction w) (auto split: list.split)

lemma split_join:
  "xs \<noteq> [] \<Longrightarrow> \<forall>w \<in> set xs. c \<notin> set w \<Longrightarrow> split (join xs [c]) c = xs"
proof (induction xs "[c]" rule: join.induct)
  case 1
  then show ?case by simp
next
  case (2 w)
  then show ?case by (simp add: split_single)
next
  case (3 w v ws)
  then show ?case by (simp add: split_append_separator)
qed

lemma hasNoSecComment_empty: "\<not> hasNoSecComment [] n"
  by (simp add: hasNoSecComment_def Let_def at_index_def line_includes_def)

lemma at_index_take:
  "i < int k \<Longrightarrow> at_index (take k xs) i = at_index xs i"
  by (auto simp: at_index_def)

text \<open>
  Where the context window starts at the first line of the file, the window index is
  the file index, and the code reads the lines that the specification names: for a
  finding on one of the first six lines of a readable file, the inline directive
  stage suppresses exactly when the finding's own line or the line before it carries
  a marker.
\<close>

theorem inline_directive_on_first_lines:
  assumes read: "readFile L (finding_file f) = Some content"
    and lo: "1 \<le> line f" and hi: "line f \<le> 6"
    and inside: "line f \<le> int (length (split content newline))"
  shows "(case getContext L f of
            None \<Rightarrow> False
          | Some c \<Rightarrow> c \<noteq> [] \<and> hasNoSecComment c (line f))
         = spec_inline_directive content (line f)"
proof -
  let ?lines = "split content newline"
  let ?k = "nat (min (int (length ?lines)) (line f + 5))"
  let ?ws = "take ?k ?lines"
  have ctx: "getContext L f = Some (join ?ws [newline])"
    using read lo hi by (simp add: getContext_def Let_def slice_def min_def max_def)
  have k: "line f \<le> int ?k" "?k \<le> length ?lines" using lo inside by simp_all
  then have ne: "?ws \<noteq> []" using lo by auto
  have "\<forall>w \<in> set ?ws. newline \<notin> set w"
    using split_no_separator [of _ content newline] by (meson in_set_takeD)
  from split_join [OF ne this] have sp: "split (join ?ws [newline]) newline = ?ws" .
  have len: "int (length ?ws) = int ?k" using k by simp
  have own: "at_index ?ws (min (line f - 1) (int (length ?ws) - 1)) = at_index ?lines (line f - 1)"
  proof -
    have "min (line f - 1) (int (length ?ws) - 1) = line f - 1" using k len by simp
    moreover have "line f - 1 < int ?k" using k by simp
    ultimately show ?thesis by (simp only: at_index_take)
  qed
  have prev: "line_includes (at_index ?ws (max 0 (line f - 2))) p
                \<longrightarrow> line_includes (at_index ?lines (line f - 1)) p
                    \<or> line_includes (at_index ?lines (line f - 2)) p" for p
  proof (cases "line f = 1")
    case True
    then have "max 0 (line f - 2) = line f - 1" by simp
    moreover have "line f - 1 < int ?k" using k by simp
    ultimately have "at_index ?ws (max 0 (line f - 2)) = at_index ?lines (line f - 1)"
      by (simp only: at_index_take)
    then show ?thesis by simp
  next
    case False
    with lo have "max 0 (line f - 2) = line f - 2" by simp
    moreover have "line f - 2 < int ?k" using k by simp
    ultimately have "at_index ?ws (max 0 (line f - 2)) = at_index ?lines (line f - 2)"
      by (simp only: at_index_take)
    then show ?thesis by simp
  qed
  have prev': "line_includes (at_index ?lines (line f - 2)) p
                \<longrightarrow> line_includes (at_index ?ws (max 0 (line f - 2))) p" for p
  proof (cases "line f = 1")
    case True
    then show ?thesis by (simp add: at_index_def line_includes_def)
  next
    case False
    with lo have "max 0 (line f - 2) = line f - 2" by simp
    moreover have "line f - 2 < int ?k" using k by simp
    ultimately have "at_index ?ws (max 0 (line f - 2)) = at_index ?lines (line f - 2)"
      by (simp only: at_index_take)
    then show ?thesis by simp
  qed
  have "hasNoSecComment (join ?ws [newline]) (line f) = spec_inline_directive content (line f)"
    unfolding hasNoSecComment_def spec_inline_directive_def Let_def sp own
    using prev [of "''nosec''"] prev [of "''noqa''"] prev' [of "''nosec''"] prev' [of "''noqa''"]
    by blast
  moreover have "hasNoSecComment (join ?ws [newline]) (line f) \<longrightarrow> join ?ws [newline] \<noteq> []"
    using hasNoSecComment_empty [of "line f"] by auto
  ultimately show ?thesis by (auto simp: ctx)
qed

lemma split_lint_text: "split lint_text newline = lint_lines"
  by (simp add: lint_text_def lint_lines_def newline_def)

theorem inline_directive_on_first_lines_witness:
  "spec_inline_directive lint_text 3
   \<and> (case getContext app_library finding_lint of
         None \<Rightarrow> False
       | Some c \<Rightarrow> c \<noteq> [] \<and> hasNoSecComment c (line finding_lint))"
proof -
  have read: "readFile app_library (finding_file finding_lint) = Some lint_text"
    by (simp add: app_library_def quiet_library_def finding_lint_def)
  have l: "line finding_lint = 3" by (simp add: finding_lint_def)
  have lo: "1 \<le> line finding_lint" and hi: "line finding_lint \<le> 6"
    and inside: "line finding_lint \<le> int (length (split lint_text newline))"
    by (simp_all add: l split_lint_text lint_lines_def)
  have spec: "spec_inline_directive lint_text 3"
    by (simp add: spec_inline_directive_def split_lint_text lint_lines_def Let_def
        at_index_def line_includes_def)
  with inline_directive_on_first_lines [OF read lo hi inside] show ?thesis
    by (simp only: l simp_thms)
qed

text \<open>
  Claim C6, at a failing input. \<open>hasNoSecComment\<close> receives the context window, which
  starts at line \<open>line - 5\<close> of the file, but indexes it with the line number of the
  file. In a file of twelve lines with a marker on line 8 only, the finding on line 8
  has the marker on its own line and is kept: the lines that are read are lines 9 and
  10. The finding on line 7 has no marker on its own line or on line 6 and is
  suppressed by the marker on the line after it.
\<close>

theorem nosec_read_at_the_wrong_lines:
  "spec_inline_directive app_text 8
   \<and> shouldSuppress app_library (FalsePositiveRuleEngine mockConfig) finding_line8 = Inr keep
   \<and> \<not> spec_inline_directive app_text 7
   \<and> shouldSuppress app_library (FalsePositiveRuleEngine mockConfig) finding_line7 =
       Inr (suppress_because ''Suppressed by nosec comment'')"
proof -
  have "spec_inline_directive app_text 8"
    by (simp add: spec_inline_directive_def split_app_text app_lines_def Let_def
        at_index_def line_includes_def)
  moreover have "\<not> spec_inline_directive app_text 7"
    by (simp add: spec_inline_directive_def split_app_text app_lines_def Let_def
        at_index_def line_includes_def)
  ultimately show ?thesis
    by (simp only: shouldSuppress_finding_line8 shouldSuppress_finding_line7 simp_thms)
qed

section \<open>The deduplicator and its key strings\<close>

lemma dedup_loop_foldl: "dedup_loop fs seen = foldl dedup_step seen fs"
  by (induction fs arbitrary: seen) simp_all

lemma dedup_loop_snoc:
  "dedup_loop (raw @ [f]) [] = dedup_step (dedup_loop raw []) f"
  by (simp add: dedup_loop_foldl)

lemma find_append:
  "find P (xs @ ys) = (case find P xs of None \<Rightarrow> find P ys | Some x \<Rightarrow> Some x)"
  by (induction xs) simp_all

lemma first_seen_snoc:
  "rev (remdups (rev (xs @ [x]))) =
     (if x \<in> set xs then rev (remdups (rev xs)) else rev (remdups (rev xs)) @ [x])"
  by simp

lemma dedup_step_keys:
  "map fst (dedup_step seen f) =
     (if dedup_key f \<in> set (map fst seen) then map fst seen else map fst seen @ [dedup_key f])"
  by (auto simp: dedup_step_def Let_def Map_has_def Map_get_def Map_set_def update_keys
      map_of_eq_None_iff split: option.split)

text \<open>first-seen order of keys\<close>
lemma dedup_loop_keys:
  "map fst (dedup_loop raw []) = rev (remdups (rev (map dedup_key raw)))"
proof (induction raw rule: rev_induct)
  case Nil
  show ?case by simp
next
  case (snoc f raw)
  have "set (map fst (dedup_loop raw [])) = set (map dedup_key raw)"
    by (simp add: snoc.IH)
  then show ?case
    by (simp only: dedup_loop_snoc dedup_step_keys snoc.IH map_append list.map
        first_seen_snoc)
qed

lemma dedup_loop_distinct: "distinct (map fst (dedup_loop raw []))"
  by (simp add: dedup_loop_keys)

lemma map_of_dedup_step:
  "map_of (dedup_step seen f) k =
     (if k = dedup_key f
      then (case map_of seen k of
              None \<Rightarrow> Some f
            | Some e \<Rightarrow> if confidence f > confidence e then Some f else Some e)
      else map_of seen k)"
  by (auto simp: dedup_step_def Let_def Map_has_def Map_get_def Map_set_def update_conv'
      split: option.split)

text \<open>invariant: each entry g under key k: key of g is k, g in raw, g maximal, g first among equals\<close>
lemma dedup_loop_entry:
  "map_of (dedup_loop raw []) k = Some g \<Longrightarrow>
     dedup_key g = k \<and> g \<in> set raw
     \<and> (\<forall>f \<in> set raw. dedup_key f = k \<longrightarrow> confidence f \<le> confidence g)
     \<and> find (\<lambda>f. dedup_key f = k \<and> confidence f = confidence g) raw = Some g"
proof (induction raw arbitrary: g rule: rev_induct)
  case Nil
  then show ?case by simp
next
  case (snoc f raw)
  show ?case
  proof (cases "k = dedup_key f")
    case False
    with snoc.prems have "map_of (dedup_loop raw []) k = Some g"
      by (simp add: dedup_loop_snoc map_of_dedup_step)
    from snoc.IH [OF this] False show ?thesis
      by (auto simp: find_append)
  next
    case True
    show ?thesis
    proof (cases "map_of (dedup_loop raw []) k")
      case None
      with True snoc.prems have g: "g = f"
        by (simp add: dedup_loop_snoc map_of_dedup_step)
      from None have "k \<notin> set (map fst (dedup_loop raw []))"
        by (simp add: map_of_eq_None_iff)
      then have nokey: "\<forall>f' \<in> set raw. dedup_key f' \<noteq> k"
        by (auto simp: dedup_loop_keys)
      then have "find (\<lambda>f. dedup_key f = k \<and> confidence f = confidence g) raw = None"
        by (auto simp: find_None_iff)
      with g True nokey show ?thesis by (auto simp: find_append)
    next
      case (Some e)
      note IH = snoc.IH [OF Some]
      show ?thesis
      proof (cases "confidence f > confidence e")
        case True
        with \<open>k = dedup_key f\<close> Some snoc.prems have g: "g = f"
          by (simp add: dedup_loop_snoc map_of_dedup_step)
        from IH True have "\<forall>f' \<in> set raw. dedup_key f' = k \<longrightarrow> confidence f' < confidence f"
          by fastforce
        then have "find (\<lambda>f'. dedup_key f' = k \<and> confidence f' = confidence f) raw = None"
          by (auto simp: find_None_iff)
        with g \<open>k = dedup_key f\<close> IH True show ?thesis
          by (auto simp: find_append)
      next
        case False
        with \<open>k = dedup_key f\<close> Some snoc.prems have g: "g = e"
          by (simp add: dedup_loop_snoc map_of_dedup_step)
        with IH False show ?thesis by (auto simp: find_append)
      qed
    qed
  qed
qed


lemma dedup_loop_values:
  assumes "g \<in> set (deduplicateFindings raw)"
  shows "map_of (dedup_loop raw []) (dedup_key g) = Some g"
proof -
  from assms obtain k where e: "(k, g) \<in> set (dedup_loop raw [])"
    by (auto simp: deduplicateFindings_def Map_values_def)
  with dedup_loop_distinct [of raw] have m: "map_of (dedup_loop raw []) k = Some g"
    by simp
  from dedup_loop_entry [OF m] have "dedup_key g = k" by blast
  with m show ?thesis by simp
qed

lemma deduplicateFindings_keys:
  "map dedup_key (deduplicateFindings raw) = rev (remdups (rev (map dedup_key raw)))"
proof -
  have "\<forall>e \<in> set (dedup_loop raw []). dedup_key (snd e) = fst e"
  proof
    fix e assume e: "e \<in> set (dedup_loop raw [])"
    then have "(fst e, snd e) \<in> set (dedup_loop raw [])" by simp
    with dedup_loop_distinct [of raw] have "map_of (dedup_loop raw []) (fst e) = Some (snd e)"
      by (rule map_of_is_SomeI)
    from dedup_loop_entry [OF this] show "dedup_key (snd e) = fst e" by blast
  qed
  then have "map dedup_key (deduplicateFindings raw) = map fst (dedup_loop raw [])"
    by (simp add: deduplicateFindings_def Map_values_def)
  then show ?thesis by (simp only: dedup_loop_keys)
qed

lemma identity_key_dedup_key:
  "identity_key f = identity_key g \<Longrightarrow> dedup_key f = dedup_key g"
  by (simp add: identity_key_def dedup_key_def)

lemma distinct_map_coarser:
  assumes "distinct (map h xs)" and "\<And>x y. k x = k y \<Longrightarrow> h x = h y"
  shows "distinct (map k xs)"
  using assms(1)
proof (induction xs)
  case Nil
  show ?case by simp
next
  case (Cons x xs)
  then have "h x \<notin> h ` set xs" and "distinct (map k xs)" by simp_all
  moreover have "k x \<notin> k ` set xs"
  proof
    assume "k x \<in> k ` set xs"
    then obtain y where y: "y \<in> set xs" and "k x = k y" by blast
    from assms(2) [OF this(2)] have "h x = h y" .
    with y have "h x \<in> h ` set xs" by (rule image_eqI [rotated])
    with \<open>h x \<notin> h ` set xs\<close> show False by contradiction
  qed
  ultimately show ?case by simp
qed

text \<open>
  On its key strings the deduplicator does what the specification says of the
  identities. For every raw list, the output is no longer than the input; its key
  strings are distinct, and are the key strings of the input in the order in which
  they are first seen; every finding of the output is a finding of the input, has the
  highest confidence among the input findings with its key string, and is the first
  input finding with this key string and this confidence. Since findings with one
  identity have one key string, the output has at most one finding of each identity,
  and none of lower confidence than an input finding of the same identity.
\<close>

theorem deduplicateFindings_on_key_strings:
  "length (deduplicateFindings raw) \<le> length raw
   \<and> distinct (map dedup_key (deduplicateFindings raw))
   \<and> map dedup_key (deduplicateFindings raw) = rev (remdups (rev (map dedup_key raw)))
   \<and> (\<forall>g \<in> set (deduplicateFindings raw).
         g \<in> set raw
         \<and> (\<forall>f \<in> set raw. dedup_key f = dedup_key g \<longrightarrow> confidence f \<le> confidence g)
         \<and> find (\<lambda>f. dedup_key f = dedup_key g \<and> confidence f = confidence g) raw = Some g)
   \<and> distinct (map identity_key (deduplicateFindings raw))
   \<and> (\<forall>g \<in> set (deduplicateFindings raw). \<forall>f \<in> set raw.
         identity_key f = identity_key g \<longrightarrow> confidence f \<le> confidence g)"
proof -
  have keys: "map dedup_key (deduplicateFindings raw) = rev (remdups (rev (map dedup_key raw)))"
    by (rule deduplicateFindings_keys)
  have "length (deduplicateFindings raw) = length (map dedup_key (deduplicateFindings raw))"
    by simp
  also have "\<dots> = length (remdups (rev (map dedup_key raw)))"
    by (simp only: keys length_rev)
  also have "\<dots> \<le> length (rev (map dedup_key raw))"
    by (rule length_remdups_leq)
  finally have len: "length (deduplicateFindings raw) \<le> length raw" by simp
  have dist: "distinct (map dedup_key (deduplicateFindings raw))"
    by (simp add: keys)
  have entry: "g \<in> set raw
         \<and> (\<forall>f \<in> set raw. dedup_key f = dedup_key g \<longrightarrow> confidence f \<le> confidence g)
         \<and> find (\<lambda>f. dedup_key f = dedup_key g \<and> confidence f = confidence g) raw = Some g"
    if "g \<in> set (deduplicateFindings raw)" for g
    using dedup_loop_entry [OF dedup_loop_values [OF that]] by blast
  have idist: "distinct (map identity_key (deduplicateFindings raw))"
    by (rule distinct_map_coarser [OF dist]) (rule identity_key_dedup_key)
  have imax: "confidence f \<le> confidence g"
    if "g \<in> set (deduplicateFindings raw)" and "f \<in> set raw"
      and "identity_key f = identity_key g" for f g
    using entry [OF that(1)] that(2) identity_key_dedup_key [OF that(3)] by blast
  have all_entries: "\<forall>g \<in> set (deduplicateFindings raw).
         g \<in> set raw
         \<and> (\<forall>f \<in> set raw. dedup_key f = dedup_key g \<longrightarrow> confidence f \<le> confidence g)
         \<and> find (\<lambda>f. dedup_key f = dedup_key g \<and> confidence f = confidence g) raw = Some g"
    using entry by (rule ballI)
  have all_max: "\<forall>g \<in> set (deduplicateFindings raw). \<forall>f \<in> set raw.
         identity_key f = identity_key g \<longrightarrow> confidence f \<le> confidence g"
    using imax by (intro ballI impI)
  show ?thesis
    by (intro conjI) (rule len dist keys all_entries idist all_max)+
qed


lemma spec_dedupe_loop_foldl: "spec_dedupe_loop fs best = foldl spec_dedupe_step best fs"
  by (induction fs arbitrary: best) simp_all

lemma spec_dedupe_loop_snoc:
  "spec_dedupe_loop (raw @ [f]) [] = spec_dedupe_step (spec_dedupe_loop raw []) f"
  by (simp add: spec_dedupe_loop_foldl)

lemma related_map_of:
  assumes "list_all2 (\<lambda>a b. snd a = snd b \<and> fst a = dedup_key (snd a)
                          \<and> fst b = identity_key (snd b)) Ds Dt"
    and "\<forall>g \<in> snd ` set Ds. (dedup_key g = ks) = (identity_key g = kt)"
  shows "map_of Ds ks = map_of Dt kt"
  using assms
proof (induction rule: list_all2_induct)
  case Nil
  show ?case by simp
next
  case (Cons a Ds b Dt)
  obtain ka ga where a: "a = (ka, ga)" by (cases a)
  obtain kb gb where b: "b = (kb, gb)" by (cases b)
  from Cons.hyps(1) a b have eq: "ga = gb" "ka = dedup_key ga" "kb = identity_key gb"
    by simp_all
  from Cons.prems a have "(dedup_key ga = ks) = (identity_key ga = kt)" by simp
  moreover from Cons.prems have "\<forall>g \<in> snd ` set Ds. (dedup_key g = ks) = (identity_key g = kt)"
    by simp
  note Cons.IH [OF this]
  ultimately show ?case using a b eq by auto
qed

lemma related_update:
  assumes "list_all2 (\<lambda>a b. snd a = snd b \<and> fst a = dedup_key (snd a)
                          \<and> fst b = identity_key (snd b)) Ds Dt"
    and "\<forall>g \<in> snd ` set Ds. (dedup_key g = dedup_key v) = (identity_key g = identity_key v)"
  shows "list_all2 (\<lambda>a b. snd a = snd b \<and> fst a = dedup_key (snd a)
                          \<and> fst b = identity_key (snd b))
           (AList.update (dedup_key v) v Ds) (AList.update (identity_key v) v Dt)"
  using assms
proof (induction rule: list_all2_induct)
  case Nil
  show ?case by simp
next
  case (Cons a Ds b Dt)
  obtain ka ga where a: "a = (ka, ga)" by (cases a)
  obtain kb gb where b: "b = (kb, gb)" by (cases b)
  from Cons.hyps(1) a b have eq: "ga = gb" "ka = dedup_key ga" "kb = identity_key gb"
    by simp_all
  from Cons.prems a have k: "(dedup_key ga = dedup_key v) = (identity_key ga = identity_key v)"
    by simp
  from Cons.prems
  have "\<forall>g \<in> snd ` set Ds. (dedup_key g = dedup_key v) = (identity_key g = identity_key v)"
    by simp
  note IH = Cons.IH [OF this]
  show ?case
  proof (cases "dedup_key ga = dedup_key v")
    case True
    with k have "identity_key ga = identity_key v" by simp
    with True a b eq Cons.hyps(2) show ?thesis by simp
  next
    case False
    with k have "identity_key ga \<noteq> identity_key v" by simp
    with False a b eq IH show ?thesis by simp
  qed
qed

lemma related_step:
  assumes rel: "list_all2 (\<lambda>a b. snd a = snd b \<and> fst a = dedup_key (snd a)
                          \<and> fst b = identity_key (snd b)) Ds Dt"
    and keys: "\<forall>g \<in> snd ` set Ds. (dedup_key g = dedup_key f) = (identity_key g = identity_key f)"
  shows "list_all2 (\<lambda>a b. snd a = snd b \<and> fst a = dedup_key (snd a)
                          \<and> fst b = identity_key (snd b))
           (dedup_step Ds f) (spec_dedupe_step Dt f)"
proof -
  note m = related_map_of [OF rel keys]
  note u = related_update [OF rel keys]
  show ?thesis
  proof (cases "map_of Ds (dedup_key f)")
    case None
    with m have "map_of Dt (identity_key f) = None" by simp
    with None u show ?thesis
      by (simp add: dedup_step_def spec_dedupe_step_def Map_has_def Map_get_def Map_set_def)
  next
    case (Some e)
    with m have "map_of Dt (identity_key f) = Some e" by simp
    with Some u rel show ?thesis
      by (simp add: dedup_step_def spec_dedupe_step_def Map_has_def Map_get_def Map_set_def)
  qed
qed

lemma dedup_loop_values_subset:
  assumes "g \<in> snd ` set (dedup_loop raw [])"
  shows "g \<in> set raw"
proof -
  from assms obtain k where "(k, g) \<in> set (dedup_loop raw [])" by auto
  with dedup_loop_distinct [of raw] have "map_of (dedup_loop raw []) k = Some g"
    by (rule map_of_is_SomeI)
  from dedup_loop_entry [OF this] show ?thesis by blast
qed

lemma related_loops:
  assumes "\<forall>f \<in> set raw. \<forall>g \<in> set raw.
             dedup_key f = dedup_key g \<longrightarrow> identity_key f = identity_key g"
  shows "list_all2 (\<lambda>a b. snd a = snd b \<and> fst a = dedup_key (snd a)
                          \<and> fst b = identity_key (snd b))
           (dedup_loop raw []) (spec_dedupe_loop raw [])"
  using assms
proof (induction raw rule: rev_induct)
  case Nil
  show ?case by simp
next
  case (snoc f raw)
  have inj: "identity_key x = identity_key y"
    if "x \<in> set (raw @ [f])" and "y \<in> set (raw @ [f])" and "dedup_key x = dedup_key y"
    for x y
    using snoc.prems that by blast
  have "\<forall>f \<in> set raw. \<forall>g \<in> set raw.
             dedup_key f = dedup_key g \<longrightarrow> identity_key f = identity_key g"
  proof (intro ballI impI)
    fix x y
    assume "x \<in> set raw" and "y \<in> set raw" and k: "dedup_key x = dedup_key y"
    then have "x \<in> set (raw @ [f])" and "y \<in> set (raw @ [f])" by simp_all
    from inj [OF this k] show "identity_key x = identity_key y" .
  qed
  note rel = snoc.IH [OF this]
  have "(dedup_key g = dedup_key f) = (identity_key g = identity_key f)"
    if "g \<in> snd ` set (dedup_loop raw [])" for g
  proof
    assume k: "dedup_key g = dedup_key f"
    from that have "g \<in> set raw" by (rule dedup_loop_values_subset)
    then have "g \<in> set (raw @ [f])" and "f \<in> set (raw @ [f])" by simp_all
    from inj [OF this k] show "identity_key g = identity_key f" .
  next
    assume "identity_key g = identity_key f"
    then show "dedup_key g = dedup_key f" by (rule identity_key_dedup_key)
  qed
  then have "\<forall>g \<in> snd ` set (dedup_loop raw []).
               (dedup_key g = dedup_key f) = (identity_key g = identity_key f)"
    by (rule ballI)
  from related_step [OF rel this] show ?case
    by (simp only: dedup_loop_snoc spec_dedupe_loop_snoc)
qed

lemma dedup_key_finding1: "dedup_key finding1 = ''test.ts:10:duplicate-rule''"
  by (simp add: dedup_key_def finding1_def Number_toString_def digits.simps)

lemma dedup_key_finding1_again: "dedup_key finding1_again = ''test.ts:10:duplicate-rule''"
  by (simp add: dedup_key_def finding1_again_def finding1_def Number_toString_def
      digits.simps)

lemma dedup_key_finding3: "dedup_key finding3 = ''src/app.ts:10:other-rule''"
  by (simp add: dedup_key_def finding3_def finding1_def Number_toString_def digits.simps)

lemma test_identities:
  "identity_key finding1 = (''test.ts'', 10, ''duplicate-rule'')"
  "identity_key finding1_again = (''test.ts'', 10, ''duplicate-rule'')"
  "identity_key finding3 = (''src/app.ts'', 10, ''other-rule'')"
  by (simp_all add: identity_key_def finding1_def finding1_again_def finding3_def)

lemma test_confidences:
  "confidence finding1 = 0.8" "confidence finding1_again = 0.95" "confidence finding3 = 0.6"
  by (simp_all add: finding1_def finding1_again_def finding3_def)

theorem deduplicateFindings_on_key_strings_witness:
  "deduplicateFindings [finding1, finding1_again] = [finding1_again]
   \<and> length (deduplicateFindings [finding1, finding1_again]) \<le> 2
   \<and> map dedup_key (deduplicateFindings [finding1, finding1_again]) =
       [''test.ts:10:duplicate-rule'']"
proof -
  note t = deduplicateFindings_on_key_strings [of "[finding1, finding1_again]"]
  from t have "length (deduplicateFindings [finding1, finding1_again])
                 \<le> length [finding1, finding1_again]" by blast
  then have len: "length (deduplicateFindings [finding1, finding1_again]) \<le> 2" by simp
  from t have "map dedup_key (deduplicateFindings [finding1, finding1_again]) =
                 rev (remdups (rev (map dedup_key [finding1, finding1_again])))" by blast
  then have keys: "map dedup_key (deduplicateFindings [finding1, finding1_again]) =
                     [''test.ts:10:duplicate-rule'']"
    by (simp add: dedup_key_finding1 dedup_key_finding1_again)
  have "deduplicateFindings [finding1, finding1_again] = [finding1_again]"
    by (simp add: deduplicateFindings_def dedup_step_def Map_values_def Map_has_def
        Map_get_def Map_set_def dedup_key_finding1 dedup_key_finding1_again test_confidences)
  with len keys show ?thesis by simp
qed

text \<open>
  When no two findings of the raw list with different identities share a key string,
  the deduplicator returns what the fold of the specification returns.
\<close>

theorem deduplicateFindings_without_collisions:
  assumes "\<forall>f \<in> set raw. \<forall>g \<in> set raw.
             dedup_key f = dedup_key g \<longrightarrow> identity_key f = identity_key g"
  shows "deduplicateFindings raw = spec_dedupe raw"
proof -
  have "map snd (dedup_loop raw []) = map snd (spec_dedupe_loop raw [])"
    using related_loops [OF assms]
    by (induction rule: list_all2_induct) simp_all
  then show ?thesis by (simp add: deduplicateFindings_def spec_dedupe_def Map_values_def)
qed

theorem deduplicateFindings_without_collisions_witness:
  "deduplicateFindings [finding1, finding1_again, finding3] =
     spec_dedupe [finding1, finding1_again, finding3]
   \<and> spec_dedupe [finding1, finding1_again, finding3] = [finding1_again, finding3]"
proof -
  have "\<forall>f \<in> set [finding1, finding1_again, finding3].
          \<forall>g \<in> set [finding1, finding1_again, finding3].
            dedup_key f = dedup_key g \<longrightarrow> identity_key f = identity_key g"
    by (simp add: dedup_key_finding1 dedup_key_finding1_again dedup_key_finding3
        test_identities)
  from deduplicateFindings_without_collisions [OF this]
  have "deduplicateFindings [finding1, finding1_again, finding3] =
          spec_dedupe [finding1, finding1_again, finding3]" .
  moreover have "spec_dedupe [finding1, finding1_again, finding3] =
                   [finding1_again, finding3]"
    by (simp add: spec_dedupe_def spec_dedupe_step_def Map_values_def Map_get_def
        Map_set_def test_identities test_confidences)
  ultimately show ?thesis by simp
qed

lemma colliding_keys:
  "dedup_key colliding1 = ''a.ts:7:3:r1''" "dedup_key colliding2 = ''a.ts:7:3:r1''"
  by (simp_all add: dedup_key_def colliding1_def colliding2_def finding1_def
      Number_toString_def digits.simps)

lemma colliding_confidence:
  "confidence colliding1 = 0.5" "confidence colliding2 = 0.9"
  by (simp_all add: colliding1_def colliding2_def)

lemma colliding_identities:
  "identity_key colliding1 = (''a.ts'', 7, ''3:r1'')"
  "identity_key colliding2 = (''a.ts:7'', 3, ''r1'')"
  "identity_key finding1 = (''test.ts'', 10, ''duplicate-rule'')"
  by (simp_all add: identity_key_def colliding1_def colliding2_def finding1_def)

text \<open>
  Claim C2, at a failing input. The key of a finding is the string
  \<open>file:line:ruleId\<close>, and two findings with different identities \<open>(file, line, ruleId)\<close>
  can have the same string. The deduplicator then keeps one of them only, where the
  fold of the specification keeps both; and it lists the kept one at the place of the
  dropped one, before a finding whose identity was seen earlier than its own.
\<close>

theorem colliding_key_strings_merge_identities:
  "identity_key colliding1 \<noteq> identity_key colliding2
   \<and> dedup_key colliding1 = dedup_key colliding2
   \<and> deduplicateFindings [colliding1, colliding2] = [colliding2]
   \<and> spec_dedupe [colliding1, colliding2] = [colliding1, colliding2]
   \<and> deduplicateFindings [colliding1, finding1, colliding2] = [colliding2, finding1]
   \<and> spec_dedupe [colliding1, finding1, colliding2] = [colliding1, finding1, colliding2]"
proof -
  have "identity_key colliding1 \<noteq> identity_key colliding2"
    by (simp add: colliding_identities)
  moreover have "dedup_key colliding1 = dedup_key colliding2"
    by (simp only: colliding_keys)
  moreover have "deduplicateFindings [colliding1, colliding2] = [colliding2]"
    by (simp add: deduplicateFindings_def dedup_step_def Map_values_def Map_has_def
        Map_get_def Map_set_def colliding_keys colliding_confidence)
  moreover have "spec_dedupe [colliding1, colliding2] = [colliding1, colliding2]"
    by (simp add: spec_dedupe_def spec_dedupe_step_def Map_values_def Map_get_def
        Map_set_def colliding_identities)
  moreover have "deduplicateFindings [colliding1, finding1, colliding2] =
                   [colliding2, finding1]"
    by (simp add: deduplicateFindings_def dedup_step_def Map_values_def Map_has_def
        Map_get_def Map_set_def colliding_keys dedup_key_finding1 colliding_confidence)
  moreover have "spec_dedupe [colliding1, finding1, colliding2] =
                   [colliding1, finding1, colliding2]"
    by (simp add: spec_dedupe_def spec_dedupe_step_def Map_values_def Map_get_def
        Map_set_def colliding_identities)
  ultimately show ?thesis by blast
qed

section \<open>Properties of the JSON reporter\<close>

subsection \<open>\<open>JSON.parse\<close> after \<open>JSON.stringify\<close>\<close>

lemma update_fresh: "k \<notin> fst ` set al \<Longrightarrow> AList.update k v al = al @ [(k, v)]"
  by (induction al) auto

lemma foldl_CreateDataProperty:
  "distinct (map fst (acc @ xs)) \<Longrightarrow> foldl CreateDataProperty acc xs = acc @ xs"
proof (induction xs arbitrary: acc)
  case Nil
  show ?case by simp
next
  case (Cons x xs)
  from Cons.prems have "fst x \<notin> fst ` set acc" by auto
  then have "CreateDataProperty acc x = acc @ [x]"
    by (simp add: CreateDataProperty_def update_fresh)
  moreover from Cons.prems have "distinct (map fst ((acc @ [x]) @ xs))" by simp
  ultimately show ?case using Cons.IH [of "acc @ [x]"] by simp
qed

lemma normal_properties_keys: "set (map fst (normal_properties ps)) \<subseteq> set (map fst ps)"
  by (induction ps) (force split: if_splits)+

lemma normal_properties_distinct:
  "distinct (map fst ps) \<Longrightarrow> distinct (map fst (normal_properties ps))"
proof (induction ps)
  case Nil
  show ?case by simp
next
  case (Cons p ps)
  obtain k v where p: "p = (k, v)" by (cases p)
  from Cons show ?case using normal_properties_keys [of ps] by (auto simp: p)
qed

lemma SerializeJSONProperty_None: "SerializeJSONProperty v = None \<longleftrightarrow> v = JSUndefined"
  by (cases v) simp_all

lemma round_trip_normal_form:
  "own_keys_distinct v \<Longrightarrow> SerializeJSONProperty v = Some j \<Longrightarrow>
     JSON_parse j = JSON_normal_form v"
  "own_keys_distinct_elements vs \<Longrightarrow>
     parse_elements (SerializeJSONArray vs) = normal_elements vs"
  "own_keys_distinct_properties ps \<Longrightarrow>
     parse_members (SerializeJSONObject ps) = normal_properties ps"
proof (induction v and vs and ps arbitrary: j
    rule: SerializeJSONProperty_SerializeJSONArray_SerializeJSONObject.induct)
  case (4 n)
  then show ?case by (cases n) auto
next
  case (7 ps)
  then have "parse_members (SerializeJSONObject ps) = normal_properties ps" by simp
  moreover from 7 have "distinct (map fst (normal_properties ps))"
    by (simp add: normal_properties_distinct)
  ultimately show ?case using 7 foldl_CreateDataProperty [of "[]" "normal_properties ps"]
    by auto
next
  case (9 v vs)
  then show ?case by (cases "SerializeJSONProperty v") (auto simp: SerializeJSONProperty_None)
next
  case (11 k v ps)
  then show ?case by (cases "SerializeJSONProperty v") (auto simp: SerializeJSONProperty_None)
qed auto

lemma normal_form_safe:
  "JSON_safe v \<Longrightarrow> JSON_normal_form v = v"
  "JSON_safe_elements vs \<Longrightarrow> normal_elements vs = vs"
  "JSON_safe_properties ps \<Longrightarrow> normal_properties ps = ps"
proof (induction v and vs and ps
    rule: JSON_normal_form_normal_elements_normal_properties.induct)
  case (4 n)
  then show ?case by (cases n) auto
qed auto

lemma normal_properties_length: "length (normal_properties ps) \<le> length ps"
  by (induction ps) (auto simp: le_SucI)

lemma safe_normal_form:
  "JSON_normal_form v = v \<Longrightarrow> v \<noteq> JSUndefined \<Longrightarrow> JSON_safe v"
  "normal_elements vs = vs \<Longrightarrow> JSON_safe_elements vs"
  "normal_properties ps = ps \<Longrightarrow> JSON_safe_properties ps"
proof (induction v and vs and ps
    rule: JSON_normal_form_normal_elements_normal_properties.induct)
  case (4 n)
  then show ?case by (cases n) auto
next
  case (9 v vs)
  then show ?case by (auto split: if_splits)
next
  case (11 k v ps)
  show ?case
  proof (cases "v = JSUndefined")
    case True
    with 11 have "normal_properties ps = (k, v) # ps" by simp
    then have "length (normal_properties ps) = Suc (length ps)" by simp
    with normal_properties_length [of ps] show ?thesis by simp
  next
    case False
    with 11 show ?thesis by auto
  qed
qed auto

lemma JSON_round_trip_lemma:
  assumes "own_keys_distinct v" and "v \<noteq> JSUndefined"
  shows "\<exists>j. JSON_stringify v = Some j \<and> JSON_parse j = JSON_normal_form v
           \<and> (JSON_parse j = v \<longleftrightarrow> JSON_safe v)"
proof -
  from assms(2) obtain j where j: "SerializeJSONProperty v = Some j"
    using SerializeJSONProperty_None [of v] by auto
  from round_trip_normal_form(1) [OF assms(1) j]
  have p: "JSON_parse j = JSON_normal_form v" .
  have "JSON_normal_form v = v \<longleftrightarrow> JSON_safe v"
    using normal_form_safe(1) [of v] safe_normal_form(1) [OF _ assms(2)] by blast
  with j p show ?thesis by (simp add: JSON_stringify_def)
qed

text \<open>
  For every value of the language made of the types of JSON: \<open>JSON.stringify\<close>
  returns a text unless the value is \<open>undefined\<close>; \<open>JSON.parse\<close> of the text is the
  value without its properties of value \<open>undefined\<close>, with \<open>null\<close> for every array
  element \<open>undefined\<close> and for every number that is not finite, and with \<open>0\<close> for
  \<open>-0\<close>; and it is the value itself exactly when the value holds none of these.
\<close>

theorem JSON_round_trip:
  assumes "own_keys_distinct v" and "v \<noteq> JSUndefined"
  shows "\<exists>j. JSON_stringify v = Some j \<and> JSON_parse j = JSON_normal_form v
           \<and> (JSON_parse j = v \<longleftrightarrow> JSON_safe v)"
  using assms by (rule JSON_round_trip_lemma)

theorem JSON_round_trip_witness:
  "\<exists>j. JSON_stringify lossy_value = Some j
     \<and> JSON_parse j =
         JSObject [(''a'', JSArray [JSNull, JSNull, JSNumber (Finite 0)]),
                   (''c'', JSNumber (Finite 1.5))]
     \<and> JSON_parse j \<noteq> lossy_value"
  using JSON_round_trip [of lossy_value]
  by (auto simp: lossy_value_def)

subsection \<open>The objects of a result\<close>



lemma normal_properties_append:
  "normal_properties (xs @ ys) = normal_properties xs @ normal_properties ys"
  by (induction xs) auto














































end
